theory Spec2Isabelle
  imports Complex_Main "HOL-Library.Word"
begin

section \<open>JavaScript values used by the PDF service\<close>

text \<open>
  The service (\<^verbatim>\<open>src/server/services/pdfService.js\<close>) computes with JavaScript numbers and
  strings. The page-range code only ever produces integer-valued numbers or \<^verbatim>\<open>NaN\<close>, so a
  number is modelled as either \<open>NaN\<close> or a mathematical integer. JavaScript numbers are
  IEEE doubles; on integers below \<open>2^53\<close> the two agree, and larger values (a page number with
  more than fifteen digits) only ever take part in comparisons against the page count, whose
  outcome rounding does not change as long as the page count itself is below \<open>2^53\<close>.

  A string is a list of code units. Isabelle characters are the code units below 256; among
  them the JavaScript white space and line terminator characters are TAB, LF, VT, FF, CR, SP and
  NBSP (U+00A0).
\<close>

datatype jsnum = NaN | Num int

text \<open>The relational operators of JavaScript: every comparison with \<^verbatim>\<open>NaN\<close> is false.\<close>

fun js_le :: "jsnum \<Rightarrow> jsnum \<Rightarrow> bool" where
  "js_le (Num a) (Num b) = (a \<le> b)"
| "js_le _ _ = False"

fun js_lt :: "jsnum \<Rightarrow> jsnum \<Rightarrow> bool" where
  "js_lt (Num a) (Num b) = (a < b)"
| "js_lt _ _ = False"

fun js_ge :: "jsnum \<Rightarrow> jsnum \<Rightarrow> bool" where
  "js_ge (Num a) (Num b) = (a \<ge> b)"
| "js_ge _ _ = False"

text \<open>\<^verbatim>\<open>x - 1\<close>, \<^verbatim>\<open>x * k\<close> and \<^verbatim>\<open>i++\<close>: arithmetic propagates \<^verbatim>\<open>NaN\<close>.\<close>

fun js_sub :: "jsnum \<Rightarrow> int \<Rightarrow> jsnum" where
  "js_sub (Num a) k = Num (a - k)"
| "js_sub NaN k = NaN"

fun js_mul :: "jsnum \<Rightarrow> int \<Rightarrow> jsnum" where
  "js_mul (Num a) k = Num (a * k)"
| "js_mul NaN k = NaN"

fun js_inc :: "jsnum \<Rightarrow> jsnum" where
  "js_inc (Num a) = Num (a + 1)"
| "js_inc NaN = NaN"

text \<open>Truthiness of a number: \<^verbatim>\<open>0\<close> and \<^verbatim>\<open>NaN\<close> are falsy.\<close>

fun js_truthy :: "jsnum \<Rightarrow> bool" where
  "js_truthy (Num a) = (a \<noteq> 0)"
| "js_truthy NaN = False"

subsection \<open>String.prototype.trim, split and includes\<close>

definition is_white_space :: "char \<Rightarrow> bool" where
  "is_white_space c = ((of_char c :: nat) \<in> {9, 10, 11, 12, 13, 32, 160})"

definition trim :: "string \<Rightarrow> string" where
  "trim s = rev (dropWhile is_white_space (rev (dropWhile is_white_space s)))"

text \<open>
  \<^verbatim>\<open>s.split(c)\<close> for a one-character separator: the pieces between the separators, in order;
  a string without the separator is its own single piece, and the empty string gives one empty
  piece. \<open>cur\<close> is the piece being read.
\<close>

fun split_from :: "char \<Rightarrow> string \<Rightarrow> string \<Rightarrow> string list" where
  "split_from c cur [] = [cur]"
| "split_from c cur (x # xs) =
     (if x = c then cur # split_from c [] xs else split_from c (cur @ [x]) xs)"

definition split_on :: "string \<Rightarrow> char \<Rightarrow> string list" where
  "split_on s c = split_from c [] s"

definition includes_char :: "string \<Rightarrow> char \<Rightarrow> bool" where
  "includes_char s c = (c \<in> set s)"

subsection \<open>parseInt\<close>

text \<open>
  \<^verbatim>\<open>parseInt(string)\<close> with no radix argument (ECMAScript, \<^verbatim>\<open>parseInt (string, radix)\<close>):
  leading white space is skipped, one sign is read, a prefix \<^verbatim>\<open>0x\<close> or \<^verbatim>\<open>0X\<close> selects
  radix 16 (otherwise the radix is 10), and the longest run of digits of that radix is the
  value. Whatever follows the digits is ignored. No digit at all gives \<^verbatim>\<open>NaN\<close>.
\<close>

definition digit_value :: "char \<Rightarrow> nat option" where
  "digit_value c =
     (let n = (of_char c :: nat) in
      if 48 \<le> n \<and> n \<le> 57 then Some (n - 48)
      else if 97 \<le> n \<and> n \<le> 122 then Some (n - 87)
      else if 65 \<le> n \<and> n \<le> 90 then Some (n - 55)
      else None)"

definition is_digit :: "nat \<Rightarrow> char \<Rightarrow> bool" where
  "is_digit R c = (case digit_value c of None \<Rightarrow> False | Some d \<Rightarrow> d < R)"

definition digits_value :: "nat \<Rightarrow> string \<Rightarrow> nat" where
  "digits_value R Z = foldl (\<lambda>acc c. acc * R + (case digit_value c of Some d \<Rightarrow> d | None \<Rightarrow> 0)) 0 Z"

fun strip_sign :: "string \<Rightarrow> int \<times> string" where
  "strip_sign [] = (1, [])"
| "strip_sign (c # S) =
     (if c = CHR ''-'' then (- 1, S) else if c = CHR ''+'' then (1, S) else (1, c # S))"

fun strip_prefix :: "string \<Rightarrow> nat \<times> string" where
  "strip_prefix (a # b # S) =
     (if a = CHR ''0'' \<and> (b = CHR ''x'' \<or> b = CHR ''X'') then (16, S) else (10, a # b # S))"
| "strip_prefix S = (10, S)"

definition parseInt :: "string \<Rightarrow> jsnum" where
  "parseInt inputString =
     (let (sign, S) = strip_sign (dropWhile is_white_space inputString);
          (R, S) = strip_prefix S;
          Z = takeWhile (is_digit R) S
      in if Z = [] then NaN else Num (sign * int (digits_value R Z)))"

section \<open>Page selection of splitPDF\<close>

text \<open>
  \<^verbatim>\<open>splitPDF\<close>, lines 86 to 107: the page indices that are copied into the new document when
  \<^verbatim>\<open>mode\<close> is not \<^verbatim>\<open>'all'\<close>. \<open>pages\<close> is the option \<^verbatim>\<open>options.pages\<close> (\<open>None\<close> when it is
  absent), \<open>totalPages\<close> the page count of the loaded document.

  The \<^verbatim>\<open>for\<close> loop of a range token, with \<^verbatim>\<open>pageIndices.push(i)\<close> as appending to the list:
\<close>

function range_loop :: "jsnum \<Rightarrow> jsnum \<Rightarrow> int \<Rightarrow> jsnum list \<Rightarrow> jsnum list" where
  "range_loop i end' totalPages pageIndices =
     (if js_le i end' \<and> js_lt i (Num totalPages)
      then range_loop (js_inc i) end' totalPages
             (if js_ge i (Num 0) then pageIndices @ [i] else pageIndices)
      else pageIndices)"
  by pat_completeness auto
termination
  by (relation "measure (\<lambda>(i, e, t, p). case i of Num a \<Rightarrow> nat (t - a) | NaN \<Rightarrow> 0)")
     (auto split: jsnum.splits)

declare range_loop.simps [simp del]

text \<open>
  Array destructuring \<^verbatim>\<open>const [start, end] = ...\<close> reads the elements 0 and 1; a missing
  element is \<^verbatim>\<open>undefined\<close>, which every comparison of the loop turns into \<^verbatim>\<open>NaN\<close>.
\<close>

fun element :: "jsnum list \<Rightarrow> nat \<Rightarrow> jsnum" where
  "element [] k = NaN"
| "element (x # xs) 0 = x"
| "element (x # xs) (Suc k) = element xs k"

text \<open>The body of \<^verbatim>\<open>for (const part of parts)\<close>: one token, pushed onto \<open>pageIndices\<close>.\<close>

definition process_part :: "int \<Rightarrow> jsnum list \<Rightarrow> string \<Rightarrow> jsnum list" where
  "process_part totalPages pageIndices part =
     (if includes_char part CHR ''-'' then
        (let bounds = map (\<lambda>n. js_sub (parseInt (trim n)) 1) (split_on part CHR ''-'');
             start = element bounds 0;
             end' = element bounds 1
         in range_loop start end' totalPages pageIndices)
      else
        (let pageNum = js_sub (parseInt (trim part)) 1
         in if js_ge pageNum (Num 0) \<and> js_lt pageNum (Num totalPages)
            then pageIndices @ [pageNum] else pageIndices))"

text \<open>\<^verbatim>\<open>if (pages)\<close>: an absent option and the empty string are both falsy.\<close>

definition splitPDF_pageIndices :: "string option \<Rightarrow> int \<Rightarrow> jsnum list" where
  "splitPDF_pageIndices pages totalPages =
     (case pages of
        None \<Rightarrow> [Num 0]
      | Some s \<Rightarrow>
          if s \<noteq> [] then foldl (process_part totalPages) [] (split_on s CHR '','')
          else [Num 0])"

text \<open>
  The decimal numeral of a natural number, as a user writes a page number. It is used to state
  properties of tokens such as \<^verbatim>\<open>a-b\<close> for arbitrary \<open>a\<close> and \<open>b\<close>; the service itself never
  prints numbers.
\<close>

definition digit_char :: "nat \<Rightarrow> char" where
  "digit_char d = ''0123456789'' ! d"

fun dec :: "nat \<Rightarrow> string" where
  "dec n = (if n < 10 then [digit_char n] else dec (n div 10) @ [digit_char (n mod 10)])"

declare dec.simps [simp del]

definition dec_digit :: "char \<Rightarrow> bool" where
  "dec_digit c = (48 \<le> (of_char c :: nat) \<and> (of_char c :: nat) \<le> 57)"

section \<open>Double arithmetic\<close>

text \<open>
  \<^verbatim>\<open>resizeRatio\<close> is a fraction, and \<^verbatim>\<open>0.8\<close>, \<^verbatim>\<open>0.15\<close> and \<^verbatim>\<open>0.2\<close> are not binary
  fractions: the values the service computes with are the IEEE 754 doubles nearest to them, and
  every subtraction and multiplication rounds again. A finite double is modelled by its exact
  rational value, and each operation as the exact operation followed by rounding to the nearest
  double, ties to the even mantissa (53 bits, exponents from \<open>-1022\<close>). Overflow to infinity is
  left out: all values here are far below \<open>2^1024\<close>.
\<close>

type_synonym double = rat

definition round_half_even :: "rat \<Rightarrow> int" where
  "round_half_even x =
     (let f = \<lfloor>x\<rfloor>; d = x - of_int f
      in if d < 1 / 2 then f else if 1 / 2 < d then f + 1 else if even f then f else f + 1)"

function bit_length :: "int \<Rightarrow> nat" where
  "bit_length n = (if n \<le> 0 then 0 else Suc (bit_length (n div 2)))"
  by pat_completeness auto
termination
  by (relation "measure nat") auto

declare bit_length.simps [simp del]

definition pow2 :: "int \<Rightarrow> rat" where
  "pow2 e = (if 0 \<le> e then 2 ^ nat e else 1 / 2 ^ nat (- e))"

text \<open>The binary exponent \<open>e\<close> of a positive rational \<open>x\<close>: \<open>2^e \<le> x < 2^(e+1)\<close>.\<close>

definition floor_log2 :: "rat \<Rightarrow> int" where
  "floor_log2 x =
     (let (p, q) = quotient_of x;
          c = int (bit_length p) - int (bit_length q)
      in if pow2 c \<le> x then c else c - 1)"

definition to_double :: "rat \<Rightarrow> double" where
  "to_double x =
     (if x = 0 then 0
      else let e = max (floor_log2 \<bar>x\<bar>) (- 1022);
               ulp = pow2 (e - 52)
           in of_int (round_half_even (x / ulp)) * ulp)"

definition d_sub :: "double \<Rightarrow> double \<Rightarrow> double" where
  "d_sub a b = to_double (a - b)"

definition d_mul :: "double \<Rightarrow> double \<Rightarrow> double" where
  "d_mul a b = to_double (a * b)"

text \<open>\<^verbatim>\<open>Math.round\<close>: the nearest integer, a tie going up.\<close>

definition Math_round :: "double \<Rightarrow> int" where
  "Math_round x = \<lfloor>x + 1 / 2\<rfloor>"

section \<open>The documents of the PDF library\<close>

text \<open>
  \<^verbatim>\<open>compressPDF\<close> works on a document loaded by pdf-lib and re-encodes images with sharp.
  Both libraries are outside the repository: they are parameters of the model, and only what
  the service reads and writes of a document is represented. An indirect object is either a
  raw stream (\<^verbatim>\<open>PDFRawStream\<close>: a dictionary and its bytes) or something else; a dictionary
  maps names to names, numbers or other values. A number in a dictionary is an integer or
  \<^verbatim>\<open>NaN\<close>, which is all an image's \<^verbatim>\<open>Width\<close> and \<^verbatim>\<open>Height\<close> can be.
\<close>

type_synonym bytes = "8 word list"

datatype js_error = TypeError string | Error string

datatype pdf_value = PDFName string | PDFNumber jsnum | PDFOtherValue

type_synonym pdf_dict = "(string \<times> pdf_value) list"

datatype pdf_object = PDFRawStream pdf_dict bytes | PDFOtherObject bytes

text \<open>A reference is an object number and a generation number.\<close>

type_synonym pdf_ref = "nat \<times> nat"

text \<open>
  \<open>indirectObjects\<close> is \<^verbatim>\<open>pdfDoc.context\<close>, the entries in the order
  \<^verbatim>\<open>enumerateIndirectObjects()\<close> lists them; the other fields are the metadata the
  service overwrites.
\<close>

record pdf_document =
  indirectObjects :: "(pdf_ref \<times> pdf_object) list"
  Title :: "string option"
  Author :: "string option"
  Subject :: "string option"
  Keywords :: "string list option"
  Producer :: "string option"
  Creator :: "string option"

text \<open>
  The library calls of \<^verbatim>\<open>performCompression\<close>, each of which may throw:
  \<^verbatim>\<open>PDFDocument.load(pdfBytes, { ignoreEncryption: true })\<close>,
  \<^verbatim>\<open>pdfDoc.save({ useObjectStreams: true })\<close> and
  \<^verbatim>\<open>sharp(contents).resize(newWidth, newHeight, { fit: 'inside' }).jpeg({ quality: q }).toBuffer()\<close>
  with the arguments \<open>contents\<close>, \<open>newWidth\<close>, \<open>newHeight\<close>, \<open>q\<close>.
\<close>

record pdf_lib =
  PDFDocument_load :: "bytes \<Rightarrow> js_error + pdf_document"
  pdfDoc_save :: "pdf_document \<Rightarrow> js_error + bytes"
  sharp_jpeg :: "bytes \<Rightarrow> jsnum \<Rightarrow> jsnum \<Rightarrow> int \<Rightarrow> js_error + bytes"

text \<open>\<^verbatim>\<open>context.assign(ref, object)\<close> is \<^verbatim>\<open>Map.set\<close>: an existing key keeps its place.\<close>

fun assign :: "(pdf_ref \<times> pdf_object) list \<Rightarrow> pdf_ref \<Rightarrow> pdf_object \<Rightarrow> (pdf_ref \<times> pdf_object) list"
  where
  "assign [] ref obj = [(ref, obj)]"
| "assign ((k, v) # ctx) ref obj =
     (if k = ref then (k, obj) # ctx else (k, v) # assign ctx ref obj)"

section \<open>compressPDF\<close>

subsection \<open>performCompression\<close>

text \<open>
  \<^verbatim>\<open>dict.get(PDFName.of(key)).numberValue\<close>: a missing entry is \<^verbatim>\<open>undefined\<close>, and reading
  its property throws; an entry that is not a number has no \<^verbatim>\<open>numberValue\<close>, and the
  \<^verbatim>\<open>undefined\<close> read there becomes \<^verbatim>\<open>NaN\<close> in the multiplication that follows.
\<close>

definition numberValue :: "pdf_dict \<Rightarrow> string \<Rightarrow> js_error + jsnum" where
  "numberValue dict key =
     (case map_of dict key of
        None \<Rightarrow> Inl (TypeError ''Cannot read properties of undefined'')
      | Some (PDFNumber n) \<Rightarrow> Inr n
      | Some _ \<Rightarrow> Inr NaN)"

text \<open>
  \<^verbatim>\<open>Math.max(1, Math.round(width * r))\<close>; both functions return \<^verbatim>\<open>NaN\<close> on \<^verbatim>\<open>NaN\<close>. The
  product is a double product; an integer dimension below \<open>2^53\<close> is itself a double.
\<close>

fun scaled :: "jsnum \<Rightarrow> double \<Rightarrow> jsnum" where
  "scaled (Num width) r = Num (max 1 (Math_round (d_mul (of_int width) r)))"
| "scaled NaN r = NaN"

text \<open>Lines 178 to 186: \<^verbatim>\<open>pdfDoc.context.stream(compressedBuffer, {...})\<close>.\<close>

definition image_stream :: "jsnum \<Rightarrow> jsnum \<Rightarrow> bytes \<Rightarrow> pdf_object" where
  "image_stream newWidth newHeight compressedBuffer =
     PDFRawStream
       [(''Type'', PDFName ''XObject''),
        (''Subtype'', PDFName ''Image''),
        (''Width'', PDFNumber newWidth),
        (''Height'', PDFNumber newHeight),
        (''BitsPerComponent'', PDFNumber (Num 8)),
        (''ColorSpace'', PDFName ''DeviceRGB''),
        (''Filter'', PDFName ''DCTDecode'')]
       compressedBuffer"

text \<open>
  The body of the \<^verbatim>\<open>try\<close> block, lines 161 to 190, up to the stream that is assigned to the
  reference. \<^verbatim>\<open>dict.set\<close> changes the dictionary of the stream that is about to be replaced;
  neither \<^verbatim>\<open>context.stream\<close> nor \<^verbatim>\<open>context.assign\<close> throws, so the change is never seen.
\<close>

definition reencode :: "pdf_lib \<Rightarrow> int \<Rightarrow> double \<Rightarrow> pdf_dict \<Rightarrow> bytes \<Rightarrow> js_error + pdf_object"
  where
  "reencode lib q r dict contents =
     (case numberValue dict ''Width'' of
        Inl err \<Rightarrow> Inl err
      | Inr width \<Rightarrow>
     (case numberValue dict ''Height'' of
        Inl err \<Rightarrow> Inl err
      | Inr height \<Rightarrow>
     (let newWidth = scaled width r;
          newHeight = scaled height r
      in case sharp_jpeg lib contents newWidth newHeight q of
           Inl err \<Rightarrow> Inl err
         | Inr compressedBuffer \<Rightarrow>
             Inr (image_stream newWidth newHeight compressedBuffer))))"

text \<open>
  The body of \<^verbatim>\<open>for (const [ref, obj] of objects)\<close>, lines 151 to 196. The \<^verbatim>\<open>catch\<close>
  only logs a warning. (\<^verbatim>\<open>compressedCount\<close> is counted and never read.)
\<close>

fun compress_object ::
  "pdf_lib \<Rightarrow> int \<Rightarrow> double \<Rightarrow> (pdf_ref \<times> pdf_object) list \<Rightarrow> pdf_ref \<times> pdf_object
     \<Rightarrow> (pdf_ref \<times> pdf_object) list"
  where
  "compress_object lib q r ctx (ref, PDFRawStream dict contents) =
     (if map_of dict ''Subtype'' = Some (PDFName ''Image'') then
        if map_of dict ''Filter'' = Some (PDFName ''DCTDecode'') then
          (case reencode lib q r dict contents of
             Inr newStream \<Rightarrow> assign ctx ref newStream
           | Inl err \<Rightarrow> ctx)
        else ctx
      else ctx)"
| "compress_object lib q r ctx (ref, PDFOtherObject v) = ctx"

text \<open>Lines 199 to 205: the metadata is overwritten.\<close>

definition remove_metadata :: "pdf_document \<Rightarrow> pdf_document" where
  "remove_metadata pdfDoc =
     pdfDoc\<lparr>Title := Some [], Author := Some [], Subject := Some [], Keywords := Some [],
       Producer := Some ''PDF Tools'', Creator := Some ''PDF Tools''\<rparr>"

text \<open>
  \<^verbatim>\<open>performCompression(q, r)\<close>, lines 145 to 208. It is a closure over \<^verbatim>\<open>pdfBytes\<close>, the
  bytes read from the uploaded file, which is an argument here. The loop runs over the list
  that \<^verbatim>\<open>enumerateIndirectObjects()\<close> returned before the first assignment.
\<close>

definition performCompression :: "pdf_lib \<Rightarrow> bytes \<Rightarrow> int \<Rightarrow> double \<Rightarrow> js_error + bytes" where
  "performCompression lib pdfBytes q r =
     (case PDFDocument_load lib pdfBytes of
        Inl err \<Rightarrow> Inl err
      | Inr pdfDoc \<Rightarrow>
          (let objects = indirectObjects pdfDoc;
               ctx = foldl (compress_object lib q r) (indirectObjects pdfDoc) objects
           in pdfDoc_save lib (remove_metadata (pdfDoc\<lparr>indirectObjects := ctx\<rparr>))))"

subsection \<open>The settings and the target-size loop\<close>

text \<open>
  \<^verbatim>\<open>options.quality\<close> and \<^verbatim>\<open>options.targetSize\<close>, as the strings of a form field or absent.
  (A target size passed as a number is read by \<^verbatim>\<open>parseInt\<close> through its decimal string.)
\<close>

record options =
  opt_quality :: "string option"
  opt_targetSize :: "string option"

text \<open>
  Line 130: \<^verbatim>\<open>options.targetSize ? parseInt(options.targetSize) * 1024 : null\<close>, with \<open>None\<close>
  for \<^verbatim>\<open>null\<close>.
\<close>

definition target_size :: "options \<Rightarrow> jsnum option" where
  "target_size opts =
     (case opt_targetSize opts of
        None \<Rightarrow> None
      | Some s \<Rightarrow> if s \<noteq> [] then Some (js_mul (parseInt s) 1024) else None)"

text \<open>Lines 133 to 142: the settings of the quality level.\<close>

definition level_settings :: "options \<Rightarrow> int \<times> double" where
  "level_settings opts =
     (if opt_quality opts = Some ''low'' then (30, 1 / 2)
      else if opt_quality opts = Some ''high'' then (80, 1)
      else (60, 3 / 4))"

text \<open>Lines 224 to 227: the settings of the next attempt.\<close>

definition reduce_settings :: "int \<times> double \<Rightarrow> int \<times> double" where
  "reduce_settings s =
     (let quality = fst s - 15;
          resizeRatio = d_sub (snd s) (to_double (15 / 100));
          quality = (if quality < 10 then 10 else quality);
          resizeRatio = (if resizeRatio < to_double (2 / 10) then to_double (2 / 10) else resizeRatio)
      in (quality, resizeRatio))"

text \<open>
  The loop of lines 218 to 228. \<open>perform\<close> is \<^verbatim>\<open>performCompression\<close>; an exception it throws
  leaves the loop. \<open>compressedBytes\<close> is \<open>None\<close> while the variable is still \<^verbatim>\<open>undefined\<close>.
  \<open>attempts\<close> is not a variable of the service: it records the settings of every call of
  \<open>perform\<close>, in order, so that properties of the sequence of attempts can be stated.
\<close>

function compress_loop ::
  "(int \<Rightarrow> double \<Rightarrow> js_error + bytes) \<Rightarrow> jsnum \<Rightarrow> nat \<Rightarrow> int \<times> double \<Rightarrow> bytes option
     \<Rightarrow> (int \<times> double) list \<Rightarrow> (int \<times> double) list \<times> (js_error + bytes option)"
  where
  "compress_loop perform targetSize i settings compressedBytes attempts =
     (if i < 5 then
        (case perform (fst settings) (snd settings) of
           Inl err \<Rightarrow> (attempts @ [settings], Inl err)
         | Inr bytes \<Rightarrow>
             if js_le (Num (int (length bytes))) targetSize
             then (attempts @ [settings], Inr (Some bytes))
             else compress_loop perform targetSize (i + 1) (reduce_settings settings)
                    (Some bytes) (attempts @ [settings]))
      else (attempts, Inr compressedBytes))"
  by pat_completeness auto
termination
  by (relation "measure (\<lambda>(perform, targetSize, i, rest). 5 - i)") auto

declare compress_loop.simps [simp del]

text \<open>
  \<^verbatim>\<open>compressPDF\<close>, lines 120 to 246, up to the bytes that are written to the output file; the
  result also carries the list of attempts. Writing \<^verbatim>\<open>undefined\<close> would throw.
\<close>

definition compressPDF ::
  "pdf_lib \<Rightarrow> bytes \<Rightarrow> options \<Rightarrow> (int \<times> double) list \<times> (js_error + bytes)" where
  "compressPDF lib pdfBytes opts =
     (let settings = level_settings opts;
          single = ([settings], performCompression lib pdfBytes (fst settings) (snd settings))
      in case target_size opts of
           None \<Rightarrow> single
         | Some targetSize \<Rightarrow>
             if js_truthy targetSize then
               (let settings = (70, to_double (8 / 10));
                    (attempts, result) =
                       compress_loop (performCompression lib pdfBytes) targetSize 0 settings
                         None []
                in (attempts,
                    case result of
                      Inl err \<Rightarrow> Inl err
                    | Inr None \<Rightarrow> Inl (TypeError ''data is undefined'')
                    | Inr (Some compressedBytes) \<Rightarrow> Inr compressedBytes))
             else single)"

text \<open>
  What one call of \<open>perform\<close> leaves in \<^verbatim>\<open>compressedBytes\<close>, and the two ways an attempt ends
  the loop early: the call throws, or its output is within the target.
\<close>

definition outcome ::
  "(int \<Rightarrow> double \<Rightarrow> js_error + bytes) \<Rightarrow> int \<times> double \<Rightarrow> js_error + bytes option" where
  "outcome perform s =
     (case perform (fst s) (snd s) of Inl err \<Rightarrow> Inl err | Inr b \<Rightarrow> Inr (Some b))"

definition stopped ::
  "(int \<Rightarrow> double \<Rightarrow> js_error + bytes) \<Rightarrow> jsnum \<Rightarrow> int \<times> double \<Rightarrow> bool" where
  "stopped perform t s =
     (case perform (fst s) (snd s) of
        Inl err \<Rightarrow> True
      | Inr b \<Rightarrow> js_le (Num (int (length b))) t)"

section \<open>Notions of the specification\<close>

text \<open>
  A token whose numeric parse fails: a single token that \<^verbatim>\<open>parseInt\<close> turns into \<^verbatim>\<open>NaN\<close>, or
  a range token one of whose two bounds is \<^verbatim>\<open>NaN\<close>.
\<close>

definition parse_fails :: "string \<Rightarrow> bool" where
  "parse_fails part =
     (if includes_char part CHR ''-'' then
        (let bounds = map (\<lambda>n. parseInt (trim n)) (split_on part CHR ''-'')
         in element bounds 0 = NaN \<or> element bounds 1 = NaN)
      else parseInt (trim part) = NaN)"

text \<open>
  The settings of attempt \<open>k\<close> (counted from 0) as the specification describes them: quality
  starts at 70 and goes down by 15 to the floor 10, the ratio starts at 0.8 and goes down by
  0.15 to the floor 0.2, in decimal arithmetic, read as a double.
\<close>

definition scheduled_settings :: "nat \<Rightarrow> int \<times> double" where
  "scheduled_settings k =
     (max 10 (70 - 15 * int k), to_double (max (2 / 10) (8 / 10 - 15 / 100 * of_nat k)))"

text \<open>
  One object after a compression pass in which every image is handled on its own: an
  eligible image whose re-encoding succeeds becomes the new stream, every other object is kept.
\<close>

fun recompressed :: "pdf_lib \<Rightarrow> int \<Rightarrow> double \<Rightarrow> pdf_object \<Rightarrow> pdf_object" where
  "recompressed lib q r (PDFRawStream dict contents) =
     (if map_of dict ''Subtype'' = Some (PDFName ''Image'')
         \<and> map_of dict ''Filter'' = Some (PDFName ''DCTDecode'')
      then (case reencode lib q r dict contents of
              Inr newStream \<Rightarrow> newStream
            | Inl err \<Rightarrow> PDFRawStream dict contents)
      else PDFRawStream dict contents)"
| "recompressed lib q r (PDFOtherObject v) = PDFOtherObject v"

subsection \<open>A library and a document for the examples\<close>

text \<open>
  A stand-in for the two libraries. Loading fails on empty input; any other input loads as a
  document of three objects: the input bytes themselves as page content, an image without
  data and an image of 1000 by 1000 pixels. Saving joins the bytes of all objects. The encoder
  rejects the image without data and otherwise keeps one byte for every ten points of
  quality.
\<close>

definition image_dict :: "int \<Rightarrow> int \<Rightarrow> pdf_dict" where
  "image_dict w h =
     [(''Type'', PDFName ''XObject''), (''Subtype'', PDFName ''Image''),
      (''Width'', PDFNumber (Num w)), (''Height'', PDFNumber (Num h)),
      (''Filter'', PDFName ''DCTDecode'')]"

definition example_doc :: "bytes \<Rightarrow> pdf_document" where
  "example_doc pdfBytes =
     \<lparr>indirectObjects =
        [((1, 0), PDFOtherObject pdfBytes),
         ((2, 0), PDFRawStream (image_dict 640 480) []),
         ((3, 0), PDFRawStream (image_dict 1000 1000) [9, 8, 7, 6, 5, 4, 3, 2])],
      Title = Some ''Report'', Author = None, Subject = None, Keywords = None,
      Producer = None, Creator = None\<rparr>"

fun object_bytes :: "pdf_ref \<times> pdf_object \<Rightarrow> bytes" where
  "object_bytes (ref, PDFRawStream dict contents) = contents"
| "object_bytes (ref, PDFOtherObject v) = v"

definition example_lib :: pdf_lib where
  "example_lib =
     \<lparr>PDFDocument_load = (\<lambda>pdfBytes.
         if pdfBytes = [] then Inl (Error ''No PDF header found'')
         else Inr (example_doc pdfBytes)),
      pdfDoc_save = (\<lambda>pdfDoc. Inr (concat (map object_bytes (indirectObjects pdfDoc)))),
      sharp_jpeg = (\<lambda>contents w h q.
         if contents = [] then Inl (Error ''Input buffer is empty'')
         else Inr (take (nat (q div 10)) contents))\<rparr>"

text \<open>The same library on a document whose only object is the image of 1000 by 1000 pixels.\<close>

definition single_image_doc :: pdf_document where
  "single_image_doc =
     \<lparr>indirectObjects =
        [((3, 0), PDFRawStream (image_dict 1000 1000) [9, 8, 7, 6, 5, 4, 3, 2])],
      Title = None, Author = None, Subject = None, Keywords = None,
      Producer = None, Creator = None\<rparr>"

definition single_image_lib :: pdf_lib where
  "single_image_lib = example_lib\<lparr>PDFDocument_load := (\<lambda>pdfBytes. Inr single_image_doc)\<rparr>"

section \<open>Properties of the page selection\<close>

subsection \<open>The loop of a range token\<close>

lemma range_loop_NaN_start: "range_loop NaN e T acc = acc"
  by (subst range_loop.simps) simp

lemma range_loop_NaN_end: "range_loop i NaN T acc = acc"
  by (subst range_loop.simps) (cases i; simp)

lemma range_loop_Num:
  "range_loop (Num i) (Num e) T acc = acc @ map Num (filter (\<lambda>k. 0 \<le> k) [i..min e (T - 1)])"
proof (induction "nat (min e (T - 1) + 1 - i)" arbitrary: i acc)
  case 0
  then have "\<not> (i \<le> e \<and> i < T)" by auto
  then show ?case by (subst range_loop.simps) auto
next
  case (Suc n)
  then have le: "i \<le> e" "i < T" by auto
  from Suc have n: "n = nat (min e (T - 1) + 1 - (i + 1))" by auto
  have up: "[i..min e (T - 1)] = i # [i + 1..min e (T - 1)]"
    using le by (simp add: upto_rec1)
  show ?case
    using le Suc.hyps(1)[OF n] by (subst range_loop.simps) (simp add: up)
qed

lemma range_loop_append: "range_loop i e T acc = acc @ range_loop i e T []"
proof (cases i)
  case NaN then show ?thesis by (simp add: range_loop_NaN_start)
next
  case (Num a)
  show ?thesis
  proof (cases e)
    case NaN then show ?thesis by (simp add: range_loop_NaN_end)
  next
    case (Num b)
    with \<open>i = Num a\<close> show ?thesis by (simp add: range_loop_Num)
  qed
qed

lemma process_part_append: "process_part T acc part = acc @ process_part T [] part"
  unfolding process_part_def Let_def
  using range_loop_append[of _ _ T acc] by simp

lemma foldl_process_part:
  "foldl (process_part T) acc parts = acc @ concat (map (process_part T []) parts)"
proof (induction parts arbitrary: acc)
  case Nil show ?case by simp
next
  case (Cons p ps)
  have "foldl (process_part T) acc (p # ps) = foldl (process_part T) (process_part T acc p) ps"
    by simp
  also have "\<dots> = process_part T acc p @ concat (map (process_part T []) ps)"
    by (rule Cons.IH)
  also have "\<dots> = acc @ process_part T [] p @ concat (map (process_part T []) ps)"
    by (subst process_part_append) simp
  finally show ?case by simp
qed

subsection \<open>Decimal numerals are read back by parseInt\<close>

lemma small_cases:
  "d < 10 \<Longrightarrow>
     d = 0 \<or> d = 1 \<or> d = 2 \<or> d = 3 \<or> d = 4 \<or> d = 5 \<or> d = 6 \<or> d = 7 \<or> d = 8 \<or> d = (9::nat)"
  by arith

lemma dec_digit_char_of: "d < 10 \<Longrightarrow> dec_digit (digit_char d)"
  by (drule small_cases) (auto simp: digit_char_def dec_digit_def)

lemma dec_digits: "c \<in> set (dec n) \<Longrightarrow> dec_digit c"
proof (induction n rule: dec.induct)
  case (1 n)
  show ?case
  proof (cases "n < 10")
    case True
    with "1.prems" show ?thesis by (subst (asm) dec.simps) (simp add: dec_digit_char_of)
  next
    case False
    with "1.prems" have "c \<in> set (dec (n div 10)) \<or> c = digit_char (n mod 10)"
      by (subst (asm) dec.simps) auto
    with False "1.IH" show ?thesis by (auto simp: dec_digit_char_of)
  qed
qed

lemma dec_nonempty: "dec n \<noteq> []"
  by (subst dec.simps) simp

lemma dec_digit_simps:
  assumes "dec_digit c"
  shows "\<not> is_white_space c" "is_digit 10 c" "c \<noteq> CHR ''-''" "c \<noteq> CHR ''+''" "c \<noteq> CHR '',''"
    "c \<noteq> CHR ''x''" "c \<noteq> CHR ''X''"
  using assms by (auto simp: dec_digit_def is_white_space_def is_digit_def digit_value_def)

lemma digits_value_snoc:
  "digits_value R (Z @ [c]) = digits_value R Z * R + (case digit_value c of Some d \<Rightarrow> d | None \<Rightarrow> 0)"
  by (simp add: digits_value_def)

lemma digit_value_char_of: "d < 10 \<Longrightarrow> digit_value (digit_char d) = Some d"
  by (drule small_cases) (auto simp: digit_char_def digit_value_def)

lemma digits_value_dec: "digits_value 10 (dec n) = n"
proof (induction n rule: dec.induct)
  case (1 n)
  show ?case
  proof (cases "n < 10")
    case True
    then show ?thesis by (subst dec.simps) (simp add: digits_value_def digit_value_char_of)
  next
    case False
    with "1.IH" show ?thesis
      by (subst dec.simps) (simp add: digits_value_snoc digit_value_char_of)
  qed
qed

lemma dropWhile_none: "(\<And>c. c \<in> set s \<Longrightarrow> \<not> P c) \<Longrightarrow> dropWhile P s = s"
  by (cases s) auto

lemma dropWhile_dec: "dropWhile is_white_space (dec n) = dec n"
  by (rule dropWhile_none) (simp add: dec_digits dec_digit_simps)

lemma trim_dec: "trim (dec n) = dec n"
proof -
  have "dropWhile is_white_space (rev (dec n)) = rev (dec n)"
    by (rule dropWhile_none) (simp add: dec_digits dec_digit_simps)
  then show ?thesis by (simp add: trim_def dropWhile_dec)
qed

lemma strip_sign_dec: "strip_sign (dec n) = (1, dec n)"
  using dec_digits[of _ n] dec_nonempty[of n]
  by (cases "dec n") (auto simp: dec_digit_simps)

lemma strip_prefix_dec: "strip_prefix (dec n) = (10, dec n)"
proof (cases "dec n" rule: strip_prefix.cases)
  case (1 a b S)
  then have "dec_digit b" using dec_digits[of b n] by simp
  with 1 show ?thesis by (auto simp: dec_digit_simps)
qed simp_all

lemma parseInt_dec: "parseInt (dec n) = Num (int n)"
proof -
  have tw: "takeWhile (is_digit 10) (dec n) = dec n"
    by (simp add: dec_digits dec_digit_simps)
  show ?thesis
    by (simp add: parseInt_def dropWhile_dec strip_sign_dec strip_prefix_dec tw dec_nonempty
        digits_value_dec)
qed

lemma split_from_no_sep: "c \<notin> set s \<Longrightarrow> split_from c cur s = [cur @ s]"
  by (induction s arbitrary: cur) auto

lemma split_from_sep:
  "c \<notin> set s \<Longrightarrow> split_from c cur (s @ c # t) = (cur @ s) # split_from c [] t"
  by (induction s arbitrary: cur) auto

lemma dec_no_sep: "CHR ''-'' \<notin> set (dec n)" "CHR '','' \<notin> set (dec n)"
  using dec_digits[of _ n] dec_digit_simps by blast+

lemma split_range_token: "split_on (dec a @ CHR ''-'' # dec b) CHR ''-'' = [dec a, dec b]"
  by (simp add: split_on_def split_from_sep split_from_no_sep dec_no_sep)

lemma split_single_token:
  "split_on (dec a @ CHR ''-'' # dec b) CHR '','' = [dec a @ CHR ''-'' # dec b]"
  by (simp add: split_on_def split_from_no_sep dec_no_sep)

subsection \<open>What a token contributes\<close>

lemma filter_upto_less: "filter (\<lambda>k. k < T) [i..e] = [i..min e (T - 1)]"
proof (induction "nat (e + 1 - i)" arbitrary: i)
  case 0
  then show ?case by simp
next
  case (Suc n)
  then have le: "i \<le> e" and n: "n = nat (e + 1 - (i + 1))" by auto
  have up: "[i..e] = i # [i + 1..e]" using le by (simp add: upto_rec1)
  show ?case
  proof (cases "i < T")
    case True
    then have "[i..min e (T - 1)] = i # [i + 1..min e (T - 1)]"
      using le by (simp add: upto_rec1)
    with True Suc.hyps(1)[OF n] up show ?thesis by simp
  next
    case False
    then have "filter (\<lambda>k. k < T) [i..e] = []" by (auto simp: filter_empty_conv)
    with False show ?thesis by simp
  qed
qed

lemma filter_upto_bounds:
  "filter (\<lambda>k. 0 \<le> k) [i..min e (T - 1)] = filter (\<lambda>k. 0 \<le> k \<and> k < T) [i..e]"
proof -
  have "filter (\<lambda>k. 0 \<le> k \<and> k < T) [i..e] = filter (\<lambda>k. 0 \<le> k) (filter (\<lambda>k. k < T) [i..e])"
    by (simp add: conj_commute)
  then show ?thesis by (simp add: filter_upto_less)
qed

lemma filter_upto_nonneg: "0 \<le> i \<Longrightarrow> filter (\<lambda>k. 0 \<le> k) [i..j] = [i..j]"
  by (simp add: filter_id_conv)

lemma sorted_wrt_js_lt_map: "sorted_wrt js_lt (map Num ks) = sorted_wrt (<) ks"
  by (simp add: sorted_wrt_map)

lemma js_sub_Num_iff: "js_sub x 1 = Num k \<longleftrightarrow> x = Num (k + 1)"
  by (cases x) auto

lemma element_map_sub:
  "element (map (\<lambda>n. js_sub (g n) 1) xs) k = js_sub (element (map g xs) k) 1"
proof (induction xs arbitrary: k)
  case Nil show ?case by simp
next
  case (Cons x xs) then show ?case by (cases k) simp_all
qed

lemma process_part_indices:
  "\<exists>ks. process_part T [] part = map Num ks \<and> sorted_wrt (<) ks \<and> (\<forall>k\<in>set ks. 0 \<le> k \<and> k < T)"
proof (cases "includes_char part CHR ''-''")
  case True
  define bounds where "bounds = map (\<lambda>n. js_sub (parseInt (trim n)) 1) (split_on part CHR ''-'')"
  have pp: "process_part T [] part = range_loop (element bounds 0) (element bounds 1) T []"
    using True by (simp add: process_part_def bounds_def Let_def)
  show ?thesis
  proof (cases "element bounds 0")
    case NaN
    then show ?thesis by (simp add: pp range_loop_NaN_start)
  next
    case (Num i)
    note start = this
    show ?thesis
    proof (cases "element bounds 1")
      case NaN
      then show ?thesis unfolding pp by (simp add: range_loop_NaN_end)
    next
      case (Num e)
      have "process_part T [] part = map Num (filter (\<lambda>k. 0 \<le> k \<and> k < T) [i..e])"
        unfolding pp start Num by (simp add: range_loop_Num filter_upto_bounds)
      moreover have "sorted_wrt (<) (filter (\<lambda>k. 0 \<le> k \<and> k < T) [i..e])"
        by (intro sorted_wrt_filter) (simp add: strict_sorted_iff)
      ultimately show ?thesis by (intro exI[of _ "filter (\<lambda>k. 0 \<le> k \<and> k < T) [i..e]"]) auto
    qed
  qed
next
  case False
  show ?thesis
  proof (cases "js_sub (parseInt (trim part)) 1")
    case NaN
    with False show ?thesis by (simp add: process_part_def Let_def)
  next
    case (Num k)
    with False show ?thesis
      by (cases "0 \<le> k \<and> k < T") (auto simp: process_part_def Let_def intro: exI[of _ "[k]"] exI[of _ "[]"])
  qed
qed

lemma parse_fails_dropped: "parse_fails part \<Longrightarrow> process_part T acc part = acc"
proof (cases "includes_char part CHR ''-''")
  case True
  assume "parse_fails part"
  with True have "element (map (\<lambda>n. parseInt (trim n)) (split_on part CHR ''-'')) 0 = NaN
      \<or> element (map (\<lambda>n. parseInt (trim n)) (split_on part CHR ''-'')) 1 = NaN"
    by (simp add: parse_fails_def Let_def)
  then show ?thesis
    using True
    by (auto simp: process_part_def Let_def element_map_sub[of "\<lambda>n. parseInt (trim n)"] range_loop_NaN_start range_loop_NaN_end)
next
  case False
  assume "parse_fails part"
  with False show ?thesis by (simp add: parse_fails_def process_part_def Let_def)
qed

lemma foldl_filter_parse_fails:
  "foldl (process_part T) acc (filter (\<lambda>p. \<not> parse_fails p) parts) = foldl (process_part T) acc parts"
  by (induction parts arbitrary: acc) (simp_all add: parse_fails_dropped)

lemma set_foldl_process_part:
  "x \<in> set (foldl (process_part T) [] parts) \<Longrightarrow> \<exists>k. x = Num k \<and> 0 \<le> k \<and> k < T"
proof -
  assume "x \<in> set (foldl (process_part T) [] parts)"
  then obtain p where "x \<in> set (process_part T [] p)"
    by (auto simp: foldl_process_part)
  with process_part_indices[of T p] show ?thesis by auto
qed

lemma process_part_range_token:
  "process_part T acc (dec a @ CHR ''-'' # dec b)
     = acc @ map Num (filter (\<lambda>i. 0 \<le> i \<and> i < T) [int a - 1..int b - 1])"
proof -
  have "includes_char (dec a @ CHR ''-'' # dec b) CHR ''-''"
    by (simp add: includes_char_def)
  then have "process_part T acc (dec a @ CHR ''-'' # dec b)
      = range_loop (Num (int a - 1)) (Num (int b - 1)) T acc"
    by (simp add: process_part_def Let_def split_range_token trim_dec parseInt_dec)
  then show ?thesis
    by (simp add: range_loop_Num filter_upto_bounds)
qed

lemma range_token_indices:
  "splitPDF_pageIndices (Some (dec a @ CHR ''-'' # dec b)) T
     = map Num (filter (\<lambda>i. 0 \<le> i \<and> i < T) [int a - 1..int b - 1])"
  by (simp add: splitPDF_pageIndices_def split_single_token process_part_range_token)

lemma default_selection:
  "splitPDF_pageIndices None totalPages = [Num 0]"
  "splitPDF_pageIndices (Some []) totalPages = [Num 0]"
  by (simp_all add: splitPDF_pageIndices_def)

lemma empty_document_selection:
  assumes "s \<noteq> []"
  shows "splitPDF_pageIndices (Some s) 0 = []"
proof -
  have "x \<notin> set (splitPDF_pageIndices (Some s) 0)" for x
    using set_foldl_process_part[of x 0 "split_on s CHR '',''"] assms
    by (auto simp: splitPDF_pageIndices_def)
  then show ?thesis by (meson last_in_set)
qed

section \<open>Properties of the target-size loop\<close>

lemma scheduled_values:
  "scheduled_settings 0 = (70, to_double (8 / 10))"
  "scheduled_settings 1 = (55, to_double (65 / 100))"
  "scheduled_settings 2 = (40, 1 / 2)"
  "scheduled_settings 3 = (25, to_double (35 / 100))"
  "scheduled_settings 4 = (10, to_double (2 / 10))"
  by code_simp+

lemma reduce_from_70: "reduce_settings (70, to_double (8 / 10)) = (55, to_double (65 / 100))"
  by code_simp

lemma reduce_from_55: "reduce_settings (55, to_double (65 / 100)) = (40, 1 / 2)"
  by code_simp

lemma reduce_from_40: "reduce_settings (40, 1 / 2) = (25, to_double (35 / 100))"
  by code_simp

lemma reduce_from_25: "reduce_settings (25, to_double (35 / 100)) = (10, to_double (2 / 10))"
  by code_simp

lemma reduce_at_floor: "reduce_settings (10, to_double (2 / 10)) = (10, to_double (2 / 10))"
  by code_simp

lemma reduce_scheduled:
  "reduce_settings (scheduled_settings 0) = scheduled_settings 1"
  "reduce_settings (scheduled_settings 1) = scheduled_settings 2"
  "reduce_settings (scheduled_settings 2) = scheduled_settings 3"
  "reduce_settings (scheduled_settings 3) = scheduled_settings 4"
  "reduce_settings (scheduled_settings 4) = scheduled_settings 4"
  by (simp_all only: scheduled_values reduce_from_70 reduce_from_55 reduce_from_40 reduce_from_25 reduce_at_floor)

lemma Suc_numerals: "Suc 0 = 1" "Suc 1 = 2" "Suc 2 = 3" "Suc 3 = 4"
  by simp_all

lemma reduce_scheduled_Suc:
  assumes "k < 4"
  shows "reduce_settings (scheduled_settings k) = scheduled_settings (Suc k)"
proof -
  from assms consider "k = 0" | "k = 1" | "k = 2" | "k = 3" by linarith
  then show ?thesis
    by cases (simp_all only: Suc_numerals reduce_scheduled)
qed

lemma compress_loop_done: "compress_loop perform t 5 s cb att = (att, Inr cb)"
  by (subst compress_loop.simps) simp

lemma compress_loop_last: "compress_loop perform t 4 s cb att = (att @ [s], outcome perform s)"
  by (subst compress_loop.simps)
     (simp add: compress_loop_done outcome_def split: sum.splits)

lemma compress_loop_attempts:
  "i + k = 4 \<Longrightarrow>
     \<exists>n. 1 \<le> n \<and> n \<le> 5 - i \<and>
       fst (compress_loop perform t i (scheduled_settings i) cb att)
         = att @ map scheduled_settings [i..<i + n]"
proof (induction k arbitrary: i cb att)
  case 0
  then have i: "i = 4" by simp
  show ?case
    unfolding i by (intro exI[of _ 1]) (simp add: compress_loop_last)
next
  case (Suc k)
  then have i: "i < 4" "Suc i + k = 4" by simp_all
  show ?case
  proof (cases "perform (fst (scheduled_settings i)) (snd (scheduled_settings i))")
    case (Inl e)
    then show ?thesis using i
      by (subst compress_loop.simps) (auto intro!: exI[of _ 1])
  next
    case (Inr b)
    show ?thesis
    proof (cases "js_le (Num (int (length b))) t")
      case True
      with Inr show ?thesis using i
        by (subst compress_loop.simps) (auto intro!: exI[of _ 1])
    next
      case False
      from Suc.IH[OF i(2), of "Some b" "att @ [scheduled_settings i]"] obtain m where
        m: "1 \<le> m" "m \<le> 5 - Suc i"
          "fst (compress_loop perform t (Suc i) (scheduled_settings (Suc i)) (Some b)
                 (att @ [scheduled_settings i]))
             = (att @ [scheduled_settings i]) @ map scheduled_settings [Suc i..<Suc i + m]"
        by blast
      have "fst (compress_loop perform t i (scheduled_settings i) cb att)
          = att @ map scheduled_settings [i..<i + Suc m]"
        using Inr False i m(3)
        by (subst compress_loop.simps) (simp add: reduce_scheduled_Suc upt_rec[of i])
      with m show ?thesis by (intro exI[of _ "Suc m"]) auto
    qed
  qed
qed

lemma compress_loop_result:
  "i + k = 4 \<Longrightarrow>
     fst (compress_loop perform t i s cb att) \<noteq> [] \<and>
     snd (compress_loop perform t i s cb att)
       = outcome perform (last (fst (compress_loop perform t i s cb att))) \<and>
     (length (fst (compress_loop perform t i s cb att)) < length att + (5 - i)
        \<longrightarrow> stopped perform t (last (fst (compress_loop perform t i s cb att))))"
proof (induction k arbitrary: i s cb att)
  case 0
  then have i: "i = 4" by simp
  show ?case
    unfolding i by (simp add: compress_loop_last)
next
  case (Suc k)
  then have i: "i < 4" "Suc i + k = 4" by simp_all
  note IH = Suc.IH[OF i(2)]
  show ?case
  proof (cases "perform (fst s) (snd s)")
    case (Inl e)
    then have "compress_loop perform t i s cb att = (att @ [s], Inl e)"
      using i by (subst compress_loop.simps) simp
    with Inl show ?thesis by (simp add: outcome_def stopped_def)
  next
    case (Inr b)
    show ?thesis
    proof (cases "js_le (Num (int (length b))) t")
      case True
      with Inr have "compress_loop perform t i s cb att = (att @ [s], Inr (Some b))"
        using i by (subst compress_loop.simps) simp
      with Inr True show ?thesis by (simp add: outcome_def stopped_def)
    next
      case False
      with Inr have eq: "compress_loop perform t i s cb att
          = compress_loop perform t (Suc i) (reduce_settings s) (Some b) (att @ [s])"
        using i by (subst compress_loop.simps) simp
      show ?thesis
        unfolding eq using IH[of "reduce_settings s" "Some b" "att @ [s]"] i by auto
    qed
  qed
qed

lemma compress_loop_first_stopped:
  assumes "stopped perform t s"
  shows "compress_loop perform t 0 s cb att = (att @ [s], outcome perform s)"
  using assms
  by (subst compress_loop.simps) (simp add: stopped_def outcome_def split: sum.splits)

lemma compress_loop_first_continues:
  assumes "\<not> stopped perform t (scheduled_settings 0)"
  shows "\<exists>n. 1 \<le> n
      \<and> fst (compress_loop perform t 0 (scheduled_settings 0) cb att)
          = att @ scheduled_settings 0 # map scheduled_settings [1..<1 + n]"
proof -
  from assms obtain b where b: "perform (fst (scheduled_settings 0)) (snd (scheduled_settings 0)) = Inr b"
    "\<not> js_le (Num (int (length b))) t"
    by (auto simp: stopped_def split: sum.splits)
  have eq: "compress_loop perform t 0 (scheduled_settings 0) cb att
      = compress_loop perform t 1 (scheduled_settings 1) (Some b) (att @ [scheduled_settings 0])"
    using b by (subst compress_loop.simps) (simp add: reduce_scheduled del: One_nat_def)
  have "1 + 3 = (4::nat)" by simp
  from compress_loop_attempts[OF this, of perform t "Some b" "att @ [scheduled_settings 0]"]
  show ?thesis unfolding eq by auto
qed

lemma compressPDF_single:
  "target_size opts = None \<or> (\<exists>t. target_size opts = Some t \<and> \<not> js_truthy t) \<Longrightarrow>
     compressPDF lib pdfBytes opts
       = ([level_settings opts],
          performCompression lib pdfBytes (fst (level_settings opts)) (snd (level_settings opts)))"
  by (auto simp: compressPDF_def Let_def)

lemma compressPDF_target:
  "target_size opts = Some t \<Longrightarrow> js_truthy t \<Longrightarrow>
     compressPDF lib pdfBytes opts
       = (fst (compress_loop (performCompression lib pdfBytes) t 0 (scheduled_settings 0)
                 None []),
          case snd (compress_loop (performCompression lib pdfBytes) t 0 (scheduled_settings 0)
                      None []) of
            Inl err \<Rightarrow> Inl err
          | Inr None \<Rightarrow> Inl (TypeError ''data is undefined'')
          | Inr (Some compressedBytes) \<Rightarrow> Inr compressedBytes)"
  by (simp add: compressPDF_def Let_def scheduled_values(1) case_prod_unfold)

lemma outcome_result:
  "(case outcome perform s of
      Inl err \<Rightarrow> Inl err
    | Inr None \<Rightarrow> Inl (TypeError ''data is undefined'')
    | Inr (Some compressedBytes) \<Rightarrow> Inr compressedBytes) = perform (fst s) (snd s)"
  by (simp add: outcome_def split: sum.splits)

lemma compressPDF_last:
  "fst (compressPDF lib pdfBytes opts) \<noteq> [] \<and>
   snd (compressPDF lib pdfBytes opts)
     = performCompression lib pdfBytes (fst (last (fst (compressPDF lib pdfBytes opts))))
         (snd (last (fst (compressPDF lib pdfBytes opts))))"
proof (cases "target_size opts = None \<or> (\<exists>t. target_size opts = Some t \<and> \<not> js_truthy t)")
  case True
  then show ?thesis by (simp add: compressPDF_single)
next
  case False
  then obtain t where t: "target_size opts = Some t" "js_truthy t" by auto
  have "0 + 4 = (4::nat)" by simp
  note res = compress_loop_result[OF this, of "performCompression lib pdfBytes" t
      "scheduled_settings 0" None "[]"]
  show ?thesis
    unfolding compressPDF_target[OF t] using res by (simp add: outcome_result)
qed

lemma compressPDF_attempts:
  assumes "target_size opts = Some t" "js_truthy t"
  shows "\<exists>n. 1 \<le> n \<and> n \<le> 5
           \<and> fst (compressPDF lib pdfBytes opts) = map scheduled_settings [0..<n]"
proof -
  have "0 + 4 = (4::nat)" by simp
  from compress_loop_attempts[OF this, of "performCompression lib pdfBytes" t None "[]"]
  show ?thesis unfolding compressPDF_target[OF assms] by auto
qed

lemma compressPDF_exhausted:
  assumes "target_size opts = Some t" "js_truthy t"
    and "\<And>k. k < 5 \<Longrightarrow> \<not> stopped (performCompression lib pdfBytes) t (scheduled_settings k)"
  shows "compressPDF lib pdfBytes opts
     = (map scheduled_settings [0..<5], performCompression lib pdfBytes 10 (to_double (2 / 10)))"
proof -
  let ?P = "performCompression lib pdfBytes"
  let ?L = "compress_loop ?P t 0 (scheduled_settings 0) None []"
  have "0 + 4 = (4::nat)" by simp
  note res = compress_loop_result[OF this, of ?P t "scheduled_settings 0" None "[]"]
  have "0 + 4 = (4::nat)" by simp
  from compress_loop_attempts[OF this, of ?P t None "[]"]
  obtain n where n: "1 \<le> n" "n \<le> 5" "fst ?L = map scheduled_settings [0..<n]" by auto
  have last: "last (fst ?L) = scheduled_settings (n - 1)"
    using n by (simp add: last_map)
  have "n = 5"
  proof (rule ccontr)
    assume "n \<noteq> 5"
    with n have "length (fst ?L) < length ([]::(int \<times> double) list) + (5 - 0)" by simp
    with res have "stopped ?P t (last (fst ?L))" by blast
    with assms(3)[of "n - 1"] n last show False by simp
  qed
  with n last have att: "fst ?L = map scheduled_settings [0..<5]"
    and l: "last (fst ?L) = (10, to_double (2 / 10))"
    by (simp_all add: scheduled_values)
  show ?thesis
    unfolding compressPDF_target[OF assms(1,2)] using res att l
    by (simp add: outcome_result)
qed

lemma compressPDF_first_stopped:
  assumes "target_size opts = Some t" and "js_truthy t"
    and "stopped (performCompression lib pdfBytes) t (70, to_double (8 / 10))"
  shows "compressPDF lib pdfBytes opts
      = ([(70, to_double (8 / 10))], performCompression lib pdfBytes 70 (to_double (8 / 10)))"
proof -
  let ?P = "performCompression lib pdfBytes"
  have "stopped ?P t (scheduled_settings 0)"
    unfolding scheduled_values by (rule assms(3))
  from compress_loop_first_stopped[OF this, of None "[]"]
  have "compressPDF lib pdfBytes opts
      = ([scheduled_settings 0], ?P (fst (scheduled_settings 0)) (snd (scheduled_settings 0)))"
    unfolding compressPDF_target[OF assms(1,2)] by (simp add: outcome_result)
  then show ?thesis by (simp only: scheduled_values fst_conv snd_conv)
qed

lemma compressPDF_first_continues:
  assumes "target_size opts = Some t" and "js_truthy t"
    and "\<not> stopped (performCompression lib pdfBytes) t (70, to_double (8 / 10))"
  shows "2 \<le> length (fst (compressPDF lib pdfBytes opts))
       \<and> fst (compressPDF lib pdfBytes opts) ! 1 = (55, to_double (65 / 100))"
proof -
  let ?P = "performCompression lib pdfBytes"
  have "\<not> stopped ?P t (scheduled_settings 0)"
    unfolding scheduled_values by (rule assms(3))
  from compress_loop_first_continues[OF this, of None "[]"]
  obtain m where m: "1 \<le> m"
    "fst (compressPDF lib pdfBytes opts)
       = scheduled_settings 0 # map scheduled_settings [1..<1 + m]"
    unfolding compressPDF_target[OF assms(1,2)] by auto
  from m(1) have "1 < 1 + m" by simp
  from upt_conv_Cons[OF this] have "[1..<1 + m] = 1 # [2..<1 + m]"
    by (simp only: Suc_numerals)
  then have "map scheduled_settings [1..<1 + m]
      = scheduled_settings 1 # map scheduled_settings [2..<1 + m]"
    by (simp only: list.map)
  then have l: "fst (compressPDF lib pdfBytes opts)
       = (70, to_double (8 / 10)) # (55, to_double (65 / 100))
           # map scheduled_settings [2..<1 + m]"
    unfolding m(2) by (simp only: scheduled_values)
  have "((70, to_double (8 / 10)) # (55, to_double (65 / 100))
           # map scheduled_settings [2..<1 + m]) ! 1 = (55, to_double (65 / 100))"
    by simp
  moreover have "2 \<le> length ((70, to_double (8 / 10)) # (55, to_double (65 / 100))
           # map scheduled_settings [2..<1 + m])"
    by simp
  ultimately show ?thesis unfolding l by blast
qed

lemma compressPDF_first_attempt:
  assumes "target_size opts = Some t" and "js_truthy t"
  shows "fst (compressPDF lib pdfBytes opts) \<noteq> []
       \<and> hd (fst (compressPDF lib pdfBytes opts)) = (70, to_double (8 / 10))"
proof -
  from compressPDF_attempts[OF assms, of lib pdfBytes]
  obtain n where n: "1 \<le> n" "fst (compressPDF lib pdfBytes opts) = map scheduled_settings [0..<n]"
    by auto
  from n(1) have "0 < n" by simp
  from upt_conv_Cons[OF this] have "[0..<n] = 0 # [1..<n]"
    by (simp only: Suc_numerals)
  then have "fst (compressPDF lib pdfBytes opts)
      = (70, to_double (8 / 10)) # map scheduled_settings [1..<n]"
    unfolding n(2) by (simp only: list.map scheduled_values)
  then show ?thesis by simp
qed

lemma scheduled_decreasing:
  "fst (scheduled_settings 1) < fst (scheduled_settings 0)
     \<and> snd (scheduled_settings 1) < snd (scheduled_settings 0)"
  "fst (scheduled_settings 2) < fst (scheduled_settings 1)
     \<and> snd (scheduled_settings 2) < snd (scheduled_settings 1)"
  "fst (scheduled_settings 3) < fst (scheduled_settings 2)
     \<and> snd (scheduled_settings 3) < snd (scheduled_settings 2)"
  "fst (scheduled_settings 4) < fst (scheduled_settings 3)
     \<and> snd (scheduled_settings 4) < snd (scheduled_settings 3)"
  by code_simp+

lemma scheduled_in_bounds:
  "10 \<le> fst (scheduled_settings 0) \<and> fst (scheduled_settings 0) \<le> 100
     \<and> to_double (2 / 10) \<le> snd (scheduled_settings 0) \<and> snd (scheduled_settings 0) \<le> 1"
  "10 \<le> fst (scheduled_settings 1) \<and> fst (scheduled_settings 1) \<le> 100
     \<and> to_double (2 / 10) \<le> snd (scheduled_settings 1) \<and> snd (scheduled_settings 1) \<le> 1"
  "10 \<le> fst (scheduled_settings 2) \<and> fst (scheduled_settings 2) \<le> 100
     \<and> to_double (2 / 10) \<le> snd (scheduled_settings 2) \<and> snd (scheduled_settings 2) \<le> 1"
  "10 \<le> fst (scheduled_settings 3) \<and> fst (scheduled_settings 3) \<le> 100
     \<and> to_double (2 / 10) \<le> snd (scheduled_settings 3) \<and> snd (scheduled_settings 3) \<le> 1"
  "10 \<le> fst (scheduled_settings 4) \<and> fst (scheduled_settings 4) \<le> 100
     \<and> to_double (2 / 10) \<le> snd (scheduled_settings 4) \<and> snd (scheduled_settings 4) \<le> 1"
  by code_simp+

lemma scheduled_step:
  assumes "k < 4"
  shows "fst (scheduled_settings (Suc k)) = max 10 (fst (scheduled_settings k) - 15)
       \<and> snd (scheduled_settings (Suc k))
           = max (to_double (2 / 10)) (d_sub (snd (scheduled_settings k)) (to_double (15 / 100)))
       \<and> fst (scheduled_settings (Suc k)) < fst (scheduled_settings k)
       \<and> snd (scheduled_settings (Suc k)) < snd (scheduled_settings k)"
proof -
  have red: "reduce_settings s = (max 10 (fst s - 15),
      max (to_double (2 / 10)) (d_sub (snd s) (to_double (15 / 100))))" for s
    unfolding reduce_settings_def Let_def max_def by auto
  have eq: "scheduled_settings (Suc k) = reduce_settings (scheduled_settings k)"
    using assms by (simp add: reduce_scheduled_Suc)
  from assms consider "k = 0" | "k = 1" | "k = 2" | "k = 3" by linarith
  then have "fst (scheduled_settings (Suc k)) < fst (scheduled_settings k)
       \<and> snd (scheduled_settings (Suc k)) < snd (scheduled_settings k)"
    by cases (simp_all only: Suc_numerals scheduled_decreasing)
  moreover have "fst (scheduled_settings (Suc k)) = max 10 (fst (scheduled_settings k) - 15)"
    unfolding eq by (subst red) (simp only: fst_conv)
  moreover have "snd (scheduled_settings (Suc k))
           = max (to_double (2 / 10)) (d_sub (snd (scheduled_settings k)) (to_double (15 / 100)))"
    unfolding eq by (subst red) (simp only: snd_conv)
  ultimately show ?thesis by blast
qed

lemma scheduled_bounds:
  assumes "k < 5"
  shows "10 \<le> fst (scheduled_settings k) \<and> fst (scheduled_settings k) \<le> 100
       \<and> to_double (2 / 10) \<le> snd (scheduled_settings k) \<and> snd (scheduled_settings k) \<le> 1"
proof -
  from assms consider "k = 0" | "k = 1" | "k = 2" | "k = 3" | "k = 4" by linarith
  then show ?thesis
    by cases (simp_all only: scheduled_in_bounds)
qed

section \<open>Properties of a compression pass\<close>

lemma assign_mid:
  "ref \<notin> fst ` set pre \<Longrightarrow> assign (pre @ (ref, obj) # rest) ref new = pre @ (ref, new) # rest"
  by (induction pre) auto

lemma compress_object_at:
  "ref \<notin> fst ` set pre \<Longrightarrow>
     compress_object lib q r (pre @ (ref, obj) # rest) (ref, obj)
       = pre @ (ref, recompressed lib q r obj) # rest"
  by (cases obj) (auto simp: assign_mid split: sum.splits)

lemma foldl_compress_object:
  "distinct (map fst (pre @ todo)) \<Longrightarrow>
     foldl (compress_object lib q r) (pre @ todo) todo
       = pre @ map (\<lambda>(ref, obj). (ref, recompressed lib q r obj)) todo"
proof (induction todo arbitrary: pre)
  case Nil
  show ?case by simp
next
  case (Cons x todo)
  obtain ref obj where x: "x = (ref, obj)" by (cases x)
  from Cons.prems have notin: "ref \<notin> fst ` set pre" by (auto simp: x)
  have d: "distinct (map fst ((pre @ [(ref, recompressed lib q r obj)]) @ todo))"
    using Cons.prems by (auto simp: x)
  have "foldl (compress_object lib q r) (pre @ x # todo) (x # todo)
      = foldl (compress_object lib q r) ((pre @ [(ref, recompressed lib q r obj)]) @ todo) todo"
    by (simp add: x compress_object_at[OF notin])
  also have "\<dots> = (pre @ [(ref, recompressed lib q r obj)])
      @ map (\<lambda>(ref, obj). (ref, recompressed lib q r obj)) todo"
    by (rule Cons.IH[OF d])
  finally show ?case by (simp add: x)
qed

lemma performCompression_recompressed:
  assumes "PDFDocument_load lib pdfBytes = Inr pdfDoc"
    and "distinct (map fst (indirectObjects pdfDoc))"
  shows "performCompression lib pdfBytes q r
     = pdfDoc_save lib (remove_metadata
         (pdfDoc\<lparr>indirectObjects :=
            map (\<lambda>(ref, obj). (ref, recompressed lib q r obj)) (indirectObjects pdfDoc)\<rparr>))"
  using assms foldl_compress_object[of "[]" "indirectObjects pdfDoc" lib q r]
  by (simp add: performCompression_def)

lemma recompressed_image:
  assumes "map_of dict ''Subtype'' = Some (PDFName ''Image'')"
    and "map_of dict ''Filter'' = Some (PDFName ''DCTDecode'')"
    and "map_of dict ''Width'' = Some (PDFNumber (Num w))"
    and "map_of dict ''Height'' = Some (PDFNumber (Num h))"
    and "sharp_jpeg lib contents (scaled (Num w) r) (scaled (Num h) r) q = Inr buf"
  shows "recompressed lib q r (PDFRawStream dict contents)
     = image_stream (scaled (Num w) r) (scaled (Num h) r) buf"
  using assms by (simp add: reencode_def numberValue_def Let_def del: scaled.simps)

lemma performCompression_image:
  assumes "PDFDocument_load lib pdfBytes = Inr pdfDoc"
    and "distinct (map fst (indirectObjects pdfDoc))"
    and "(ref, PDFRawStream dict contents) \<in> set (indirectObjects pdfDoc)"
    and "map_of dict ''Subtype'' = Some (PDFName ''Image'')"
    and "map_of dict ''Filter'' = Some (PDFName ''DCTDecode'')"
    and "map_of dict ''Width'' = Some (PDFNumber (Num w))"
    and "map_of dict ''Height'' = Some (PDFNumber (Num h))"
    and "sharp_jpeg lib contents (scaled (Num w) r) (scaled (Num h) r) q = Inr buf"
  shows "\<exists>objects.
       performCompression lib pdfBytes q r
         = pdfDoc_save lib (remove_metadata (pdfDoc\<lparr>indirectObjects := objects\<rparr>))
     \<and> map fst objects = map fst (indirectObjects pdfDoc)
     \<and> (ref, image_stream (scaled (Num w) r) (scaled (Num h) r) buf) \<in> set objects"
proof -
  let ?objects = "map (\<lambda>(ref, obj). (ref, recompressed lib q r obj)) (indirectObjects pdfDoc)"
  have "(ref, recompressed lib q r (PDFRawStream dict contents)) \<in> set ?objects"
    using assms(3) by force
  then have "(ref, image_stream (scaled (Num w) r) (scaled (Num h) r) buf) \<in> set ?objects"
    by (simp only: recompressed_image[OF assms(4-8)])
  moreover have "map fst ?objects = map fst (indirectObjects pdfDoc)"
    by (simp add: case_prod_unfold)
  ultimately show ?thesis
    using performCompression_recompressed[OF assms(1,2), of q r] by blast
qed

lemma level_low:
  "opt_quality opts = Some ''low'' \<Longrightarrow> level_settings opts = (30, 1 / 2)"
  by (simp add: level_settings_def)

subsection \<open>The example library\<close>

lemma example_perform:
  "bs \<noteq> [] \<Longrightarrow>
     performCompression example_lib bs q r
       = Inr (bs @ take (nat (q div 10)) [9, 8, 7, 6, 5, 4, 3, 2])"
  by (simp add: performCompression_def example_lib_def example_doc_def image_dict_def
      reencode_def numberValue_def remove_metadata_def image_stream_def Let_def)

lemma example_target:
  "target_size \<lparr>opt_quality = level, opt_targetSize = Some ''1''\<rparr> = Some (Num 1024)"
  by (simp add: target_size_def parseInt_def is_white_space_def is_digit_def digit_value_def
      digits_value_def)

lemma example_run:
  "compressPDF example_lib (replicate 1020 0) \<lparr>opt_quality = level, opt_targetSize = Some ''1''\<rparr>
     = ([scheduled_settings 0, scheduled_settings 1, scheduled_settings 2],
        Inr (replicate 1020 0 @ [9, 8, 7, 6]))"
proof -
  let ?P = "performCompression example_lib (replicate 1020 0)"
  have p0: "?P (fst (scheduled_settings 0)) (snd (scheduled_settings 0))
      = Inr (replicate 1020 0 @ [9, 8, 7, 6, 5, 4, 3])"
    unfolding scheduled_values by (simp add: example_perform)
  have p1: "?P (fst (scheduled_settings 1)) (snd (scheduled_settings 1))
      = Inr (replicate 1020 0 @ [9, 8, 7, 6, 5])"
    unfolding scheduled_values by (simp add: example_perform)
  have p2: "?P (fst (scheduled_settings 2)) (snd (scheduled_settings 2))
      = Inr (replicate 1020 0 @ [9, 8, 7, 6])"
    unfolding scheduled_values by (simp add: example_perform)
  have l2: "compress_loop ?P (Num 1024) 2 (scheduled_settings 2) cb att
      = (att @ [scheduled_settings 2], Inr (Some (replicate 1020 0 @ [9, 8, 7, 6])))" for cb att
    by (subst compress_loop.simps) (simp add: p2 del: One_nat_def)
  have l1: "compress_loop ?P (Num 1024) 1 (scheduled_settings 1) cb att
      = (att @ [scheduled_settings 1, scheduled_settings 2],
         Inr (Some (replicate 1020 0 @ [9, 8, 7, 6])))" for cb att
    by (subst compress_loop.simps) (simp add: p1 reduce_scheduled l2 del: One_nat_def)
  have l0: "compress_loop ?P (Num 1024) 0 (scheduled_settings 0) None []
      = ([scheduled_settings 0, scheduled_settings 1, scheduled_settings 2],
         Inr (Some (replicate 1020 0 @ [9, 8, 7, 6])))"
    by (subst compress_loop.simps) (simp add: p0 reduce_scheduled l1 del: One_nat_def)
  show ?thesis
    by (simp add: compressPDF_target[OF example_target] l0)
qed

lemma example_never_stopped:
  "\<not> stopped (performCompression example_lib (replicate 2000 0)) (Num 1024) s"
  by (simp add: stopped_def example_perform)

lemma example_first_pass:
  "performCompression example_lib [1, 2, 3] 70 (to_double (8 / 10))
     = Inr [1, 2, 3, 9, 8, 7, 6, 5, 4, 3]"
  by (simp add: example_perform)

lemma example_target_below_kilobyte:
  "target_size \<lparr>opt_quality = level, opt_targetSize = Some ''0.5''\<rparr> = Some (Num 0)"
  by (simp add: target_size_def parseInt_def is_white_space_def is_digit_def digit_value_def
      digits_value_def)

section \<open>The page selection and the specification\<close>

text \<open>
  Claim C1 says that an expression with a token whose numeric parse fails is rejected with a
  malformed-input error. The page selection has no statement that throws: it returns a list
  for every expression. At the expression \<^verbatim>\<open>1,abc,3\<close> on five pages the token \<^verbatim>\<open>abc\<close> fails to
  parse, and the selection is returned without it.
\<close>

theorem unparsed_token_not_rejected_counterexample:
  "parse_fails ''abc'' \<and> splitPDF_pageIndices (Some ''1,abc,3'') 5 = [Num 0, Num 2]"
  by code_simp

text \<open>
  Claim C1, as the code has it: a token whose numeric parse fails adds nothing to
  \<^verbatim>\<open>pageIndices\<close>, so that the selection is the one of the expression without such tokens; and
  no \<^verbatim>\<open>NaN\<close> reaches the selection of a non-empty expression, whose entries are all numbers
  \<open>k\<close> with \<open>0 \<le> k < totalPages\<close>.
\<close>

theorem unparsed_token_dropped:
  "(parse_fails part \<longrightarrow> process_part totalPages pageIndices part = pageIndices)
   \<and> (s \<noteq> [] \<longrightarrow>
        splitPDF_pageIndices (Some s) totalPages
          = foldl (process_part totalPages) []
              (filter (\<lambda>part. \<not> parse_fails part) (split_on s CHR '','')))
   \<and> (s \<noteq> [] \<longrightarrow>
        (\<forall>x \<in> set (splitPDF_pageIndices (Some s) totalPages).
            \<exists>k. x = Num k \<and> 0 \<le> k \<and> k < totalPages))"
  using set_foldl_process_part[of _ totalPages "split_on s CHR '',''"]
  by (auto simp: parse_fails_dropped splitPDF_pageIndices_def foldl_filter_parse_fails)

theorem unparsed_token_dropped_witness:
  "parse_fails ''2-x'' \<and> process_part 5 [Num 0] ''2-x'' = [Num 0]
   \<and> ''1,abc,3'' \<noteq> []
   \<and> filter (\<lambda>part. \<not> parse_fails part) (split_on ''1,abc,3'' CHR '','') = [''1'', ''3'']
   \<and> splitPDF_pageIndices (Some ''1,abc,3'') 5 = foldl (process_part 5) [] [''1'', ''3'']
   \<and> Num 2 \<in> set (splitPDF_pageIndices (Some ''1,abc,3'') 5)
   \<and> (\<exists>k. Num 2 = Num k \<and> 0 \<le> k \<and> k < 5)"
proof -
  have a: "parse_fails ''2-x''" by code_simp
  have b: "filter (\<lambda>part. \<not> parse_fails part) (split_on ''1,abc,3'' CHR '','') = [''1'', ''3'']"
    by code_simp
  have c: "''1,abc,3'' \<noteq> []" by simp
  have d: "Num 2 \<in> set (splitPDF_pageIndices (Some ''1,abc,3'') 5)" by code_simp
  show ?thesis
    using unparsed_token_dropped[of "''2-x''" 5 "[Num 0]" "''1,abc,3''"] a b c d
    by simp
qed

text \<open>
  Claim C2 says that an absent or empty expression selects \<open>[0]\<close> when the document has pages
  and nothing when it has none. The tokens of an expression are checked against
  \<open>totalPages\<close> (see \<open>empty_document_selection\<close>: a non-empty expression on a document without
  pages selects nothing), the default is not: on a document without pages the selection is
  still \<open>[0]\<close>.
\<close>

theorem default_page_of_empty_document:
  "splitPDF_pageIndices None 0 = [Num 0] \<and> splitPDF_pageIndices (Some []) 0 = [Num 0]"
  by (simp add: splitPDF_pageIndices_def)

text \<open>
  Claim C3: the range token \<^verbatim>\<open>a-b\<close> with \<open>1 \<le> a\<close> selects the zero-based indices \<open>i\<close> from
  \<open>a - 1\<close> to \<open>b - 1\<close> with \<open>0 \<le> i\<close> and \<open>i < totalPages\<close>, in ascending order, which is the
  interval from \<open>a - 1\<close> to the smaller of \<open>b - 1\<close> and \<open>totalPages - 1\<close>; a range that exceeds
  the document is clipped (\<^verbatim>\<open>1-100\<close> on 5 pages selects 0 to 4), and a range whose start is
  after its end selects nothing.
\<close>

theorem range_token_clipped:
  assumes "1 \<le> a"
  shows "process_part totalPages pageIndices (dec a @ ''-'' @ dec b)
            = pageIndices
              @ map Num (filter (\<lambda>i. 0 \<le> i \<and> i < totalPages) [int a - 1..int b - 1])
       \<and> splitPDF_pageIndices (Some (dec a @ ''-'' @ dec b)) totalPages
            = map Num (filter (\<lambda>i. 0 \<le> i \<and> i < totalPages) [int a - 1..int b - 1])
       \<and> splitPDF_pageIndices (Some (dec a @ ''-'' @ dec b)) totalPages
            = map Num [int a - 1..min (int b - 1) (totalPages - 1)]
       \<and> (b < a \<longrightarrow> splitPDF_pageIndices (Some (dec a @ ''-'' @ dec b)) totalPages = [])
       \<and> splitPDF_pageIndices (Some ''1-100'') 5 = [Num 0, Num 1, Num 2, Num 3, Num 4]"
proof -
  have nonneg: "0 \<le> int a - 1" using assms by simp
  have "filter (\<lambda>i. 0 \<le> i \<and> i < totalPages) [int a - 1..int b - 1]
      = [int a - 1..min (int b - 1) (totalPages - 1)]"
    using filter_upto_bounds[of "int a - 1" "int b - 1" totalPages, symmetric]
    by (simp add: filter_upto_nonneg[OF nonneg])
  moreover have "b < a \<Longrightarrow> [int a - 1..min (int b - 1) (totalPages - 1)] = []"
    by simp
  moreover have "splitPDF_pageIndices (Some ''1-100'') 5 = [Num 0, Num 1, Num 2, Num 3, Num 4]"
    by code_simp
  ultimately show ?thesis
    by (simp only: append_Cons append_Nil range_token_indices process_part_range_token) simp
qed

theorem range_token_clipped_witness:
  "(1::nat) \<le> 2
   \<and> process_part 3 [Num 0] ''2-4'' = [Num 0, Num 1, Num 2]
   \<and> splitPDF_pageIndices (Some ''2-4'') 3 = [Num 1, Num 2]
   \<and> (1::nat) \<le> 5 \<and> (3::nat) < 5 \<and> splitPDF_pageIndices (Some ''5-3'') 9 = []"
  using range_token_clipped[where a = 2 and b = 4 and totalPages = 3 and pageIndices = "[Num 0]"]
    range_token_clipped[where a = 5 and b = 3 and totalPages = 9 and pageIndices = "[]"]
  by (simp add: dec.simps digit_char_def upto_rec1)

text \<open>
  Claim C4: the selection of an expression is the concatenation, in token order, of what
  each token selects on its own, each token's indices ascending; nothing is sorted across
  tokens and nothing is removed as a duplicate: \<^verbatim>\<open>3,1\<close> on 5 pages selects \<open>[2, 0]\<close>,
  \<^verbatim>\<open>3,1-2\<close> selects \<open>[2, 0, 1]\<close>, and \<^verbatim>\<open>2,1-3,2\<close> selects page index 1 three times.
\<close>

theorem token_order_preserved:
  "(s \<noteq> [] \<longrightarrow>
      splitPDF_pageIndices (Some s) totalPages
        = concat (map (process_part totalPages []) (split_on s CHR '','')))
   \<and> sorted_wrt js_lt (process_part totalPages [] part)
   \<and> splitPDF_pageIndices (Some ''3,1'') 5 = [Num 2, Num 0]
   \<and> splitPDF_pageIndices (Some ''3,1-2'') 5 = [Num 2, Num 0, Num 1]
   \<and> splitPDF_pageIndices (Some ''2,1-3,2'') 5 = [Num 1, Num 0, Num 1, Num 2, Num 1]"
proof -
  have "sorted_wrt js_lt (process_part totalPages [] part)"
    using process_part_indices[of totalPages part] by (auto simp: sorted_wrt_js_lt_map)
  moreover have "splitPDF_pageIndices (Some ''3,1'') 5 = [Num 2, Num 0]" by code_simp
  moreover have "splitPDF_pageIndices (Some ''3,1-2'') 5 = [Num 2, Num 0, Num 1]" by code_simp
  moreover have "splitPDF_pageIndices (Some ''2,1-3,2'') 5 = [Num 1, Num 0, Num 1, Num 2, Num 1]"
    by code_simp
  ultimately show ?thesis
    by (simp add: splitPDF_pageIndices_def foldl_process_part[of totalPages "[]"])
qed

theorem token_order_preserved_witness:
  "''7,2-3'' \<noteq> [] \<and> split_on ''7,2-3'' CHR '','' = [''7'', ''2-3'']
   \<and> splitPDF_pageIndices (Some ''7,2-3'') 9
        = process_part 9 [] ''7'' @ process_part 9 [] ''2-3''
   \<and> process_part 9 [] ''7'' @ process_part 9 [] ''2-3'' = [Num 6, Num 1, Num 2]"
proof -
  have a: "split_on ''7,2-3'' CHR '','' = [''7'', ''2-3'']" by code_simp
  have b: "process_part 9 [] ''7'' @ process_part 9 [] ''2-3'' = [Num 6, Num 1, Num 2]"
    by code_simp
  show ?thesis
    using token_order_preserved[of "''7,2-3''" 9] a b by simp
qed

section \<open>The compression and the specification\<close>

text \<open>
  Claim C5: the target-size loop makes at most five attempts, for every target size, and
  \<^verbatim>\<open>compressPDF\<close> always makes at least one. When none of the five scheduled attempts ends
  the loop (each returns bytes that are larger than the target, as for a target below the size
  reached at the floor settings), the result is what the fifth attempt, at quality 10 and ratio
  0.2, returned: bytes, not an error. An error comes only from
  \<^verbatim>\<open>performCompression\<close> itself: when it returns bytes at all settings, so does
  \<^verbatim>\<open>compressPDF\<close>. (The functions are total: every call returns.)
\<close>

theorem recompression_bounded:
  "fst (compressPDF lib pdfBytes opts) \<noteq> []
   \<and> length (fst (compressPDF lib pdfBytes opts)) \<le> 5
   \<and> (target_size opts = Some t \<and> js_truthy t
        \<and> (\<forall>k<5. \<not> stopped (performCompression lib pdfBytes) t (scheduled_settings k))
      \<longrightarrow> compressPDF lib pdfBytes opts
            = (map scheduled_settings [0..<5], performCompression lib pdfBytes 10 (to_double (2 / 10)))
          \<and> (\<exists>b. performCompression lib pdfBytes 10 (to_double (2 / 10)) = Inr b))
   \<and> ((\<forall>q r. \<exists>b. performCompression lib pdfBytes q r = Inr b)
      \<longrightarrow> (\<exists>b. snd (compressPDF lib pdfBytes opts) = Inr b))"
proof -
  have len: "length (fst (compressPDF lib pdfBytes opts)) \<le> 5"
  proof (cases "target_size opts = None \<or> (\<exists>t. target_size opts = Some t \<and> \<not> js_truthy t)")
    case True
    then show ?thesis by (simp add: compressPDF_single)
  next
    case False
    then obtain t' where "target_size opts = Some t'" "js_truthy t'" by auto
    from compressPDF_attempts[OF this, of lib pdfBytes] show ?thesis by auto
  qed
  have ex: "\<exists>b. performCompression lib pdfBytes 10 (to_double (2 / 10)) = Inr b"
    if "\<forall>k<5. \<not> stopped (performCompression lib pdfBytes) t (scheduled_settings k)"
  proof -
    from that have "\<not> stopped (performCompression lib pdfBytes) t (scheduled_settings 4)" by simp
    then show ?thesis
      by (auto simp: stopped_def scheduled_values split: sum.splits)
  qed
  have last: "snd (compressPDF lib pdfBytes opts)
     = performCompression lib pdfBytes (fst (last (fst (compressPDF lib pdfBytes opts))))
         (snd (last (fst (compressPDF lib pdfBytes opts))))"
    using compressPDF_last by blast
  have "\<exists>b. snd (compressPDF lib pdfBytes opts) = Inr b"
    if "\<forall>q r. \<exists>b. performCompression lib pdfBytes q r = Inr b"
    using that unfolding last by blast
  with len ex compressPDF_last[of lib pdfBytes opts] compressPDF_exhausted[of opts t lib pdfBytes]
  show ?thesis by blast
qed

theorem recompression_bounded_witness:
  "target_size \<lparr>opt_quality = None, opt_targetSize = Some ''1''\<rparr> = Some (Num 1024)
   \<and> js_truthy (Num 1024)
   \<and> \<not> stopped (performCompression example_lib (replicate 2000 0)) (Num 1024) (scheduled_settings 0)
   \<and> \<not> stopped (performCompression example_lib (replicate 2000 0)) (Num 1024) (scheduled_settings 4)
   \<and> compressPDF example_lib (replicate 2000 0) \<lparr>opt_quality = None, opt_targetSize = Some ''1''\<rparr>
       = (map scheduled_settings [0..<5], Inr (replicate 2000 0 @ [9]))
   \<and> length (fst (compressPDF example_lib (replicate 2000 0)
         \<lparr>opt_quality = None, opt_targetSize = Some ''1''\<rparr>)) = 5"
proof -
  have p: "performCompression example_lib (replicate 2000 0) 10 (to_double (2 / 10))
      = Inr (replicate 2000 0 @ [9])"
    by (simp add: example_perform)
  have q: "\<forall>q r. \<exists>b. performCompression example_lib (replicate 2000 0) q r = Inr b"
    by (simp add: example_perform)
  show ?thesis
    using recompression_bounded[of example_lib "replicate 2000 0"
        "\<lparr>opt_quality = None, opt_targetSize = Some ''1''\<rparr>" "Num 1024"]
      example_target[of None] example_never_stopped p q
    by simp
qed

text \<open>
  Claim C6: when a target size is given, attempt \<open>k\<close> uses the scheduled settings: quality
  \<open>70 - 15 k\<close> and the double nearest to \<open>0.8 - 0.15 k\<close>. From each attempt to the next the
  quality goes down by 15 and the ratio by 0.15 (in double arithmetic), each with its floor, and
  both become strictly smaller; every attempt has its quality between 10 and 100 and its ratio
  between 0.2 and 1. The floors 10 and 0.2 are reached at the fifth attempt, and the reduction
  leaves settings at the floor where they are.
\<close>

theorem attempts_decrease:
  assumes "target_size opts = Some t" and "js_truthy t"
    and "attempts = fst (compressPDF lib pdfBytes opts)"
  shows "attempts = map scheduled_settings [0..<length attempts]
     \<and> (\<forall>j. Suc j < length attempts \<longrightarrow>
           fst (attempts ! Suc j) = max 10 (fst (attempts ! j) - 15)
         \<and> snd (attempts ! Suc j)
             = max (to_double (2 / 10)) (d_sub (snd (attempts ! j)) (to_double (15 / 100)))
         \<and> fst (attempts ! Suc j) < fst (attempts ! j)
         \<and> snd (attempts ! Suc j) < snd (attempts ! j))
     \<and> (\<forall>s \<in> set attempts.
           10 \<le> fst s \<and> fst s \<le> 100 \<and> to_double (2 / 10) \<le> snd s \<and> snd s \<le> 1)
     \<and> reduce_settings (10, to_double (2 / 10)) = (10, to_double (2 / 10))"
proof -
  from compressPDF_attempts[OF assms(1,2), of lib pdfBytes] assms(3)
  obtain n where n: "1 \<le> n" "n \<le> 5" "attempts = map scheduled_settings [0..<n]" by auto
  then have len: "length attempts = n" by simp
  have step: "fst (attempts ! Suc j) = max 10 (fst (attempts ! j) - 15)
         \<and> snd (attempts ! Suc j)
             = max (to_double (2 / 10)) (d_sub (snd (attempts ! j)) (to_double (15 / 100)))
         \<and> fst (attempts ! Suc j) < fst (attempts ! j)
         \<and> snd (attempts ! Suc j) < snd (attempts ! j)" if "Suc j < length attempts" for j
  proof -
    from that n have j: "j < 4" "Suc j < n" "j < n" by (simp_all add: len)
    then have nth: "attempts ! Suc j = scheduled_settings (Suc j)"
        "attempts ! j = scheduled_settings j"
      unfolding n(3) by simp_all
    show ?thesis unfolding nth by (rule scheduled_step[OF j(1)])
  qed
  have bounds: "10 \<le> fst s \<and> fst s \<le> 100 \<and> to_double (2 / 10) \<le> snd s \<and> snd s \<le> 1"
    if "s \<in> set attempts" for s
  proof -
    from that n(3) obtain k where k: "k < n" "s = scheduled_settings k" by auto
    with n(2) have "k < 5" by simp
    with scheduled_bounds[of k] k(2) show ?thesis by simp
  qed
  have shape: "attempts = map scheduled_settings [0..<length attempts]"
    unfolding len by (rule n(3))
  show ?thesis
  proof (intro conjI allI impI ballI)
    show "attempts = map scheduled_settings [0..<length attempts]" by (rule shape)
    show "reduce_settings (10, to_double (2 / 10)) = (10, to_double (2 / 10))" by (rule reduce_at_floor)
  qed (use step bounds in blast)+
qed

theorem attempts_decrease_witness:
  "target_size \<lparr>opt_quality = Some ''high'', opt_targetSize = Some ''1''\<rparr> = Some (Num 1024)
   \<and> js_truthy (Num 1024)
   \<and> fst (compressPDF example_lib (replicate 1020 0)
            \<lparr>opt_quality = Some ''high'', opt_targetSize = Some ''1''\<rparr>)
       = [scheduled_settings 0, scheduled_settings 1, scheduled_settings 2]
   \<and> Suc 0 < length [scheduled_settings 0, scheduled_settings 1, scheduled_settings 2]
   \<and> fst (scheduled_settings 1) < fst (scheduled_settings 0)
   \<and> snd (scheduled_settings 1) < snd (scheduled_settings 0)
   \<and> scheduled_settings 2 \<in> set [scheduled_settings 0, scheduled_settings 1, scheduled_settings 2]
   \<and> 10 \<le> fst (scheduled_settings 2) \<and> snd (scheduled_settings 2) \<le> 1"
proof -
  let ?opts = "\<lparr>opt_quality = Some ''high'', opt_targetSize = Some ''1''\<rparr>"
  let ?att = "[scheduled_settings 0, scheduled_settings 1, scheduled_settings 2]"
  have run: "fst (compressPDF example_lib (replicate 1020 0) ?opts) = ?att"
    by (simp add: example_run)
  have t: "js_truthy (Num 1024)" by simp
  note inst = attempts_decrease[OF example_target t run[symmetric]]
  from inst have "Suc 0 < length ?att \<longrightarrow> fst (?att ! Suc 0) < fst (?att ! 0) \<and> snd (?att ! Suc 0) < snd (?att ! 0)"
    by blast
  moreover from inst have "scheduled_settings 2 \<in> set ?att \<longrightarrow>
       10 \<le> fst (scheduled_settings 2) \<and> snd (scheduled_settings 2) \<le> 1"
    by blast
  ultimately show ?thesis
    using example_target[of "Some ''high''"] run by (simp del: One_nat_def)
qed

text \<open>
  Claim C7 says that whenever a target size is requested the first attempt uses quality 70 and
  ratio 0.8, whatever the quality level. The loop is entered only when \<^verbatim>\<open>targetSize\<close>, that is
  \<^verbatim>\<open>parseInt(options.targetSize) * 1024\<close>, is truthy. A requested target of half a kilobyte,
  \<^verbatim>\<open>'0.5'\<close>, is read by \<^verbatim>\<open>parseInt\<close> as 0: the loop is not entered, and the only pass uses
  the settings of the level, (30, 0.5) for \<^verbatim>\<open>low\<close> and (80, 1) for \<^verbatim>\<open>high\<close>.
\<close>

theorem target_below_kilobyte_counterexample:
  "target_size \<lparr>opt_quality = Some ''low'', opt_targetSize = Some ''0.5''\<rparr> = Some (Num 0)
   \<and> compressPDF example_lib [1, 2, 3] \<lparr>opt_quality = Some ''low'', opt_targetSize = Some ''0.5''\<rparr>
       = ([(30, 1 / 2)], Inr [1, 2, 3, 9, 8, 7])
   \<and> compressPDF example_lib [1, 2, 3] \<lparr>opt_quality = Some ''high'', opt_targetSize = Some ''0.5''\<rparr>
       = ([(80, 1)], Inr [1, 2, 3, 9, 8, 7, 6, 5, 4, 3, 2])
   \<and> hd (fst (compressPDF example_lib [1, 2, 3]
                \<lparr>opt_quality = Some ''low'', opt_targetSize = Some ''0.5''\<rparr>))
       \<noteq> (70, to_double (8 / 10))"
proof -
  have low: "compressPDF example_lib [1, 2, 3] \<lparr>opt_quality = Some ''low'', opt_targetSize = Some ''0.5''\<rparr>
       = ([(30, 1 / 2)], Inr [1, 2, 3, 9, 8, 7])"
    by (simp add: compressPDF_single example_target_below_kilobyte level_settings_def
        example_perform)
  have high: "compressPDF example_lib [1, 2, 3] \<lparr>opt_quality = Some ''high'', opt_targetSize = Some ''0.5''\<rparr>
       = ([(80, 1)], Inr [1, 2, 3, 9, 8, 7, 6, 5, 4, 3, 2])"
    by (simp add: compressPDF_single example_target_below_kilobyte level_settings_def
        example_perform)
  show ?thesis
    by (simp add: low high example_target_below_kilobyte)
qed

text \<open>
  Claim C7, as the code has it: when \<^verbatim>\<open>parseInt(options.targetSize) * 1024\<close> is a number other
  than 0 and \<^verbatim>\<open>NaN\<close>, the first attempt is a call of \<^verbatim>\<open>performCompression\<close> at quality 70
  and ratio 0.8, whatever the quality level of the options is. If that call throws or its
  output is within the target, its result is the result of \<^verbatim>\<open>compressPDF\<close> and no other
  attempt is made; otherwise a second attempt follows at quality 55 and ratio 0.65. The result
  does not depend on the quality level.
\<close>

theorem target_overrides_level:
  assumes "target_size opts = Some t" and "js_truthy t"
  shows "fst (compressPDF lib pdfBytes opts) \<noteq> []
     \<and> hd (fst (compressPDF lib pdfBytes opts)) = (70, to_double (8 / 10))
     \<and> (stopped (performCompression lib pdfBytes) t (70, to_double (8 / 10)) \<longrightarrow>
          compressPDF lib pdfBytes opts
            = ([(70, to_double (8 / 10))], performCompression lib pdfBytes 70 (to_double (8 / 10))))
     \<and> (\<not> stopped (performCompression lib pdfBytes) t (70, to_double (8 / 10)) \<longrightarrow>
          2 \<le> length (fst (compressPDF lib pdfBytes opts))
          \<and> fst (compressPDF lib pdfBytes opts) ! 1 = (55, to_double (65 / 100)))
     \<and> compressPDF lib pdfBytes (opts\<lparr>opt_quality := level\<rparr>) = compressPDF lib pdfBytes opts"
proof -
  have "target_size (opts\<lparr>opt_quality := level\<rparr>) = Some t"
    using assms(1) by (simp add: target_size_def)
  then have same: "compressPDF lib pdfBytes (opts\<lparr>opt_quality := level\<rparr>)
      = compressPDF lib pdfBytes opts"
    by (simp add: compressPDF_target[OF _ assms(2)] assms(1))
  from compressPDF_first_attempt[OF assms, of lib pdfBytes]
    compressPDF_first_stopped[OF assms, of lib pdfBytes]
    compressPDF_first_continues[OF assms, of lib pdfBytes] same
  show ?thesis by blast
qed

theorem target_overrides_level_witness:
  "target_size \<lparr>opt_quality = Some ''low'', opt_targetSize = Some ''1''\<rparr> = Some (Num 1024)
   \<and> js_truthy (Num 1024)
   \<and> level_settings \<lparr>opt_quality = Some ''low'', opt_targetSize = Some ''1''\<rparr> = (30, 1 / 2)
   \<and> stopped (performCompression example_lib [1, 2, 3]) (Num 1024) (70, to_double (8 / 10))
   \<and> compressPDF example_lib [1, 2, 3] \<lparr>opt_quality = Some ''low'', opt_targetSize = Some ''1''\<rparr>
       = ([(70, to_double (8 / 10))], Inr [1, 2, 3, 9, 8, 7, 6, 5, 4, 3])
   \<and> \<not> stopped (performCompression example_lib (replicate 1020 0)) (Num 1024)
          (70, to_double (8 / 10))
   \<and> fst (compressPDF example_lib (replicate 1020 0)
            \<lparr>opt_quality = Some ''low'', opt_targetSize = Some ''1''\<rparr>) ! 1
       = (55, to_double (65 / 100))
   \<and> compressPDF example_lib [1, 2, 3] \<lparr>opt_quality = Some ''high'', opt_targetSize = Some ''1''\<rparr>
       = compressPDF example_lib [1, 2, 3] \<lparr>opt_quality = Some ''low'', opt_targetSize = Some ''1''\<rparr>"
proof -
  let ?low = "\<lparr>opt_quality = Some ''low'', opt_targetSize = Some ''1''\<rparr>"
  have t: "js_truthy (Num 1024)" by simp
  have s1: "stopped (performCompression example_lib [1, 2, 3]) (Num 1024) (70, to_double (8 / 10))"
    by (simp add: stopped_def example_perform)
  have s2: "\<not> stopped (performCompression example_lib (replicate 1020 0)) (Num 1024)
          (70, to_double (8 / 10))"
    by (simp add: stopped_def example_perform)
  note a = target_overrides_level[OF example_target t, of example_lib "[1, 2, 3]" "Some ''low''"
      "Some ''high''"]
  note b = target_overrides_level[OF example_target t, of example_lib "replicate 1020 0"
      "Some ''low''" "Some ''high''"]
  from a s1 have r1: "compressPDF example_lib [1, 2, 3] ?low
       = ([(70, to_double (8 / 10))], Inr [1, 2, 3, 9, 8, 7, 6, 5, 4, 3])"
    by (simp only: example_first_pass)
  from b s2 have r2: "fst (compressPDF example_lib (replicate 1020 0) ?low) ! 1
       = (55, to_double (65 / 100))"
    by blast
  from a have r3: "compressPDF example_lib [1, 2, 3] (?low\<lparr>opt_quality := Some ''high''\<rparr>)
       = compressPDF example_lib [1, 2, 3] ?low"
    by blast
  show ?thesis
    using r1 r2 r3 s1 s2 by (simp add: example_target level_settings_def del: One_nat_def)
qed

text \<open>
  Claim C8: an image whose re-encoding fails is skipped: the loop body leaves the context as
  it is. The pass goes on with the other objects: on a loaded document with distinct
  references, what is saved is the document in which every object has been handled on its
  own, so that a failing image is kept and every other eligible image is replaced. A pass
  fails only where loading or saving fails: once the document is loaded and saving returns
  bytes, the pass returns bytes.
\<close>

theorem failed_image_skipped:
  "(reencode lib q r dict contents = Inl err \<longrightarrow>
      compress_object lib q r ctx (ref, PDFRawStream dict contents) = ctx
    \<and> recompressed lib q r (PDFRawStream dict contents) = PDFRawStream dict contents)
   \<and> (PDFDocument_load lib pdfBytes = Inr pdfDoc \<and> distinct (map fst (indirectObjects pdfDoc)) \<longrightarrow>
        performCompression lib pdfBytes q r
          = pdfDoc_save lib (remove_metadata
              (pdfDoc\<lparr>indirectObjects :=
                 map (\<lambda>(ref, obj). (ref, recompressed lib q r obj)) (indirectObjects pdfDoc)\<rparr>)))
   \<and> (PDFDocument_load lib pdfBytes = Inr pdfDoc \<and> (\<forall>d. \<exists>b. pdfDoc_save lib d = Inr b) \<longrightarrow>
        (\<exists>b. performCompression lib pdfBytes q r = Inr b))"
  using performCompression_recompressed[of lib pdfBytes pdfDoc q r]
  by (simp add: performCompression_def Let_def)

theorem failed_image_skipped_witness:
  "reencode example_lib 30 (1 / 2) (image_dict 640 480) [] = Inl (Error ''Input buffer is empty'')
   \<and> compress_object example_lib 30 (1 / 2) (indirectObjects (example_doc [1, 2, 3]))
        ((2, 0), PDFRawStream (image_dict 640 480) [])
       = indirectObjects (example_doc [1, 2, 3])
   \<and> PDFDocument_load example_lib [1, 2, 3] = Inr (example_doc [1, 2, 3])
   \<and> distinct (map fst (indirectObjects (example_doc [1, 2, 3])))
   \<and> map (\<lambda>(ref, obj). (ref, recompressed example_lib 30 (1 / 2) obj))
        (indirectObjects (example_doc [1, 2, 3]))
       = [((1, 0), PDFOtherObject [1, 2, 3]),
          ((2, 0), PDFRawStream (image_dict 640 480) []),
          ((3, 0), image_stream (Num 500) (Num 500) [9, 8, 7])]
   \<and> (\<forall>d. \<exists>b. pdfDoc_save example_lib d = Inr b)
   \<and> performCompression example_lib [1, 2, 3] 30 (1 / 2) = Inr [1, 2, 3, 9, 8, 7]"
proof -
  have g: "\<forall>d. \<exists>b. pdfDoc_save example_lib d = Inr b"
    by (simp add: example_lib_def)
  have a: "reencode example_lib 30 (1 / 2) (image_dict 640 480) []
      = Inl (Error ''Input buffer is empty'')"
    by (simp add: reencode_def numberValue_def image_dict_def example_lib_def)
  have b: "PDFDocument_load example_lib [1, 2, 3] = Inr (example_doc [1, 2, 3])"
    by (simp add: example_lib_def)
  have c: "distinct (map fst (indirectObjects (example_doc [1, 2, 3])))"
    by (simp add: example_doc_def)
  have d: "scaled (Num 1000) (1 / 2) = Num 500" by code_simp
  have e: "map (\<lambda>(ref, obj). (ref, recompressed example_lib 30 (1 / 2) obj))
        (indirectObjects (example_doc [1, 2, 3]))
       = [((1, 0), PDFOtherObject [1, 2, 3]),
          ((2, 0), PDFRawStream (image_dict 640 480) []),
          ((3, 0), image_stream (Num 500) (Num 500) [9, 8, 7])]"
    by (simp add: example_doc_def a)
       (simp add: image_dict_def reencode_def numberValue_def example_lib_def d del: scaled.simps)
  have f: "pdfDoc_save example_lib (remove_metadata (example_doc [1, 2, 3]
        \<lparr>indirectObjects := [((1, 0), PDFOtherObject [1, 2, 3]),
          ((2, 0), PDFRawStream (image_dict 640 480) []),
          ((3, 0), image_stream (Num 500) (Num 500) [9, 8, 7])]\<rparr>)) = Inr [1, 2, 3, 9, 8, 7]"
    by (simp add: example_lib_def remove_metadata_def image_stream_def)
  show ?thesis
    using failed_image_skipped[of example_lib 30 "1 / 2" "image_dict 640 480" "[]"
        "Error ''Input buffer is empty''" "indirectObjects (example_doc [1, 2, 3])" "(2, 0)"
        "[1, 2, 3]" "example_doc [1, 2, 3]"]
      a b c e f g
    by simp
qed

text \<open>
  Claim C9: with quality level \<^verbatim>\<open>low\<close> and no target size, \<^verbatim>\<open>compressPDF\<close> makes one pass,
  at quality 30 and ratio 0.5. In a pass over a loaded document with distinct references,
  every eligible image of \<open>w\<close> by \<open>h\<close> pixels is given to the encoder with the dimensions
  \<open>max 1 (round (w * r))\<close> by \<open>max 1 (round (h * r))\<close>; when the encoder succeeds, the object
  saved under the image's reference is a stream whose bytes are the encoder's output and whose
  dictionary has these dimensions as \<^verbatim>\<open>Width\<close> and \<^verbatim>\<open>Height\<close>, with type \<^verbatim>\<open>XObject\<close>,
  subtype \<^verbatim>\<open>Image\<close>, 8 bits per component, colour space \<^verbatim>\<open>DeviceRGB\<close> and filter
  \<^verbatim>\<open>DCTDecode\<close>. When the image is the only object, this stream is the only object that
  is saved. For 1000 pixels and ratio 0.5 the new dimension is 500.
\<close>

theorem low_level_single_pass:
  "(opt_quality opts = Some ''low'' \<and> opt_targetSize opts = None \<longrightarrow>
      compressPDF lib pdfBytes opts = ([(30, 1 / 2)], performCompression lib pdfBytes 30 (1 / 2)))
   \<and> (PDFDocument_load lib pdfBytes = Inr pdfDoc
      \<and> distinct (map fst (indirectObjects pdfDoc))
      \<and> (ref, PDFRawStream dict contents) \<in> set (indirectObjects pdfDoc)
      \<and> map_of dict ''Subtype'' = Some (PDFName ''Image'')
      \<and> map_of dict ''Filter'' = Some (PDFName ''DCTDecode'')
      \<and> map_of dict ''Width'' = Some (PDFNumber (Num w))
      \<and> map_of dict ''Height'' = Some (PDFNumber (Num h))
      \<and> sharp_jpeg lib contents
           (Num (max 1 (Math_round (d_mul (of_int w) r))))
           (Num (max 1 (Math_round (d_mul (of_int h) r)))) q = Inr buf
      \<longrightarrow> (\<exists>objects.
             performCompression lib pdfBytes q r
               = pdfDoc_save lib (remove_metadata (pdfDoc\<lparr>indirectObjects := objects\<rparr>))
           \<and> map fst objects = map fst (indirectObjects pdfDoc)
           \<and> (ref,
               PDFRawStream
                 [(''Type'', PDFName ''XObject''),
                  (''Subtype'', PDFName ''Image''),
                  (''Width'', PDFNumber (Num (max 1 (Math_round (d_mul (of_int w) r))))),
                  (''Height'', PDFNumber (Num (max 1 (Math_round (d_mul (of_int h) r))))),
                  (''BitsPerComponent'', PDFNumber (Num 8)),
                  (''ColorSpace'', PDFName ''DeviceRGB''),
                  (''Filter'', PDFName ''DCTDecode'')]
                 buf) \<in> set objects
           \<and> (indirectObjects pdfDoc = [(ref, PDFRawStream dict contents)] \<longrightarrow>
                objects =
                  [(ref,
                    PDFRawStream
                      [(''Type'', PDFName ''XObject''),
                       (''Subtype'', PDFName ''Image''),
                       (''Width'', PDFNumber (Num (max 1 (Math_round (d_mul (of_int w) r))))),
                       (''Height'', PDFNumber (Num (max 1 (Math_round (d_mul (of_int h) r))))),
                       (''BitsPerComponent'', PDFNumber (Num 8)),
                       (''ColorSpace'', PDFName ''DeviceRGB''),
                       (''Filter'', PDFName ''DCTDecode'')]
                      buf)])))
   \<and> max 1 (Math_round (d_mul 1000 (1 / 2))) = 500"
proof -
  let ?new = "PDFRawStream
                 [(''Type'', PDFName ''XObject''),
                  (''Subtype'', PDFName ''Image''),
                  (''Width'', PDFNumber (Num (max 1 (Math_round (d_mul (of_int w) r))))),
                  (''Height'', PDFNumber (Num (max 1 (Math_round (d_mul (of_int h) r))))),
                  (''BitsPerComponent'', PDFNumber (Num 8)),
                  (''ColorSpace'', PDFName ''DeviceRGB''),
                  (''Filter'', PDFName ''DCTDecode'')]
                 buf"
  have new: "image_stream (scaled (Num w) r) (scaled (Num h) r) buf = ?new"
    by (simp add: image_stream_def)
  have single: "compressPDF lib pdfBytes opts
      = ([(30, 1 / 2)], performCompression lib pdfBytes 30 (1 / 2))"
    if "opt_quality opts = Some ''low''" "opt_targetSize opts = None"
  proof -
    from that(2) have "target_size opts = None" by (simp add: target_size_def)
    then show ?thesis by (simp add: compressPDF_single level_low[OF that(1)])
  qed
  have dims: "max 1 (Math_round (d_mul 1000 (1 / 2))) = 500" by code_simp
  have image: "\<exists>objects.
             performCompression lib pdfBytes q r
               = pdfDoc_save lib (remove_metadata (pdfDoc\<lparr>indirectObjects := objects\<rparr>))
           \<and> map fst objects = map fst (indirectObjects pdfDoc)
           \<and> (ref, ?new) \<in> set objects
           \<and> (indirectObjects pdfDoc = [(ref, PDFRawStream dict contents)] \<longrightarrow>
                objects = [(ref, ?new)])"
    if "PDFDocument_load lib pdfBytes = Inr pdfDoc"
      and "distinct (map fst (indirectObjects pdfDoc))"
      and "(ref, PDFRawStream dict contents) \<in> set (indirectObjects pdfDoc)"
      and "map_of dict ''Subtype'' = Some (PDFName ''Image'')"
      and "map_of dict ''Filter'' = Some (PDFName ''DCTDecode'')"
      and "map_of dict ''Width'' = Some (PDFNumber (Num w))"
      and "map_of dict ''Height'' = Some (PDFNumber (Num h))"
      and "sharp_jpeg lib contents
           (Num (max 1 (Math_round (d_mul (of_int w) r))))
           (Num (max 1 (Math_round (d_mul (of_int h) r)))) q = Inr buf"
  proof -
    from that(8) have enc: "sharp_jpeg lib contents (scaled (Num w) r) (scaled (Num h) r) q = Inr buf"
      by simp
    from performCompression_image[OF that(1-7) enc] obtain objects where
      o: "performCompression lib pdfBytes q r
               = pdfDoc_save lib (remove_metadata (pdfDoc\<lparr>indirectObjects := objects\<rparr>))"
        "map fst objects = map fst (indirectObjects pdfDoc)"
        "(ref, ?new) \<in> set objects"
      unfolding new by blast
    have "objects = [(ref, ?new)]"
      if one: "indirectObjects pdfDoc = [(ref, PDFRawStream dict contents)]"
    proof -
      from o(2) one have "length objects = 1"
        by (metis length_map list.size(3,4) One_nat_def add.left_neutral)
      then obtain x where "objects = [x]" by (cases objects) auto
      with o(3) show ?thesis by simp
    qed
    with o show ?thesis by blast
  qed
  from single dims image show ?thesis by blast
qed

theorem low_level_single_pass_witness:
  "opt_quality \<lparr>opt_quality = Some ''low'', opt_targetSize = None\<rparr> = Some ''low''
   \<and> opt_targetSize \<lparr>opt_quality = Some ''low'', opt_targetSize = None\<rparr> = None
   \<and> PDFDocument_load single_image_lib [1] = Inr single_image_doc
   \<and> distinct (map fst (indirectObjects single_image_doc))
   \<and> indirectObjects single_image_doc
       = [((3, 0), PDFRawStream (image_dict 1000 1000) [9, 8, 7, 6, 5, 4, 3, 2])]
   \<and> map_of (image_dict 1000 1000) ''Subtype'' = Some (PDFName ''Image'')
   \<and> map_of (image_dict 1000 1000) ''Filter'' = Some (PDFName ''DCTDecode'')
   \<and> map_of (image_dict 1000 1000) ''Width'' = Some (PDFNumber (Num 1000))
   \<and> map_of (image_dict 1000 1000) ''Height'' = Some (PDFNumber (Num 1000))
   \<and> sharp_jpeg single_image_lib [9, 8, 7, 6, 5, 4, 3, 2] (Num 500) (Num 500) 30 = Inr [9, 8, 7]
   \<and> compressPDF single_image_lib [1] \<lparr>opt_quality = Some ''low'', opt_targetSize = None\<rparr>
       = ([(30, 1 / 2)],
          pdfDoc_save single_image_lib (remove_metadata
            (single_image_doc\<lparr>indirectObjects :=
               [((3, 0),
                 PDFRawStream
                   [(''Type'', PDFName ''XObject''),
                    (''Subtype'', PDFName ''Image''),
                    (''Width'', PDFNumber (Num 500)),
                    (''Height'', PDFNumber (Num 500)),
                    (''BitsPerComponent'', PDFNumber (Num 8)),
                    (''ColorSpace'', PDFName ''DeviceRGB''),
                    (''Filter'', PDFName ''DCTDecode'')]
                   [9, 8, 7])]\<rparr>)))
   \<and> compressPDF single_image_lib [1] \<lparr>opt_quality = Some ''low'', opt_targetSize = None\<rparr>
       = ([(30, 1 / 2)], Inr [9, 8, 7])"
proof -
  let ?opts = "\<lparr>opt_quality = Some ''low'', opt_targetSize = None\<rparr>"
  let ?new = "PDFRawStream
                   [(''Type'', PDFName ''XObject''),
                    (''Subtype'', PDFName ''Image''),
                    (''Width'', PDFNumber (Num 500)),
                    (''Height'', PDFNumber (Num 500)),
                    (''BitsPerComponent'', PDFNumber (Num 8)),
                    (''ColorSpace'', PDFName ''DeviceRGB''),
                    (''Filter'', PDFName ''DCTDecode'')]
                   [9, 8, 7]"
  have dims: "max 1 (Math_round (d_mul (of_int 1000) (1 / 2))) = 500" by code_simp
  have enc: "sharp_jpeg single_image_lib [9, 8, 7, 6, 5, 4, 3, 2] (Num 500) (Num 500) 30
      = Inr [9, 8, 7]"
    by (simp add: single_image_lib_def example_lib_def)
  have load: "PDFDocument_load single_image_lib [1] = Inr single_image_doc"
    by (simp add: single_image_lib_def)
  have objs: "indirectObjects single_image_doc
       = [((3, 0), PDFRawStream (image_dict 1000 1000) [9, 8, 7, 6, 5, 4, 3, 2])]"
    by (simp add: single_image_doc_def)
  have dict: "map_of (image_dict 1000 1000) ''Subtype'' = Some (PDFName ''Image'')"
    "map_of (image_dict 1000 1000) ''Filter'' = Some (PDFName ''DCTDecode'')"
    "map_of (image_dict 1000 1000) ''Width'' = Some (PDFNumber (Num 1000))"
    "map_of (image_dict 1000 1000) ''Height'' = Some (PDFNumber (Num 1000))"
    by (simp_all add: image_dict_def)
  have save: "pdfDoc_save single_image_lib (remove_metadata
            (single_image_doc\<lparr>indirectObjects := [((3, 0), ?new)]\<rparr>)) = Inr [9, 8, 7]"
    by (simp add: single_image_lib_def example_lib_def remove_metadata_def)
  note inst = low_level_single_pass[where opts = ?opts and lib = single_image_lib
      and pdfBytes = "[1]" and pdfDoc = single_image_doc and ref = "(3, 0)"
      and dict = "image_dict 1000 1000" and contents = "[9, 8, 7, 6, 5, 4, 3, 2]"
      and w = 1000 and h = 1000 and r = "1 / 2" and q = 30 and buf = "[9, 8, 7]"]
  from inst have pass: "compressPDF single_image_lib [1] ?opts
      = ([(30, 1 / 2)], performCompression single_image_lib [1] 30 (1 / 2))"
    by simp
  from inst enc load objs dict
  have "performCompression single_image_lib [1] 30 (1 / 2)
      = pdfDoc_save single_image_lib (remove_metadata
            (single_image_doc\<lparr>indirectObjects := [((3, 0), ?new)]\<rparr>))"
    unfolding dims by auto
  with pass save enc load objs dict show ?thesis by simp
qed

text \<open>
  Claim C10: every call of \<^verbatim>\<open>performCompression\<close> loads the original bytes, so the bytes
  (or the error) that \<^verbatim>\<open>compressPDF\<close> ends with are those of one pass over the original
  document at the settings of the last attempt.
\<close>

theorem attempts_do_not_compound:
  "fst (compressPDF lib pdfBytes opts) \<noteq> []
   \<and> snd (compressPDF lib pdfBytes opts)
       = performCompression lib pdfBytes (fst (last (fst (compressPDF lib pdfBytes opts))))
           (snd (last (fst (compressPDF lib pdfBytes opts))))"
  by (rule compressPDF_last)

end
